theory Spec2Isabelle
  imports Main "HOL-Library.Multiset" "HOL-Library.Sublist"
begin

section \<open>JavaScript values\<close>

text \<open>
  Thrown values of the runtime itself: \<open>JSON.parse\<close> throws a \<open>SyntaxError\<close>; reading a
  property of \<open>null\<close> or \<open>undefined\<close> throws a \<open>TypeError\<close>, and so does converting to
  a string an object that has no usable conversion method. Their message texts are
  engine-specific and are not modelled. A rejection of a delivery capability or of the registry is
  an \<open>Error\<close> object; it is represented by its message (\<open>Inl message\<close>).
\<close>

datatype js_error = SyntaxError | TypeError

text \<open>
  The JavaScript operator \<open>v || d\<close> on an optional string: \<open>undefined\<close> and the empty
  string are falsy.
\<close>

definition str_or :: "string option \<Rightarrow> string \<Rightarrow> string" where
  "str_or v d = (case v of None \<Rightarrow> d | Some s \<Rightarrow> if s = [] then d else s)"

subsection \<open>JSON.parse\<close>

text \<open>
  The values \<open>JSON.parse\<close> returns. A number keeps its literal; an object keeps its members
  in source order, and a later member with the same key overrides an earlier one when the
  object is read.
\<close>

datatype json =
    JNull
  | JBool bool
  | JNumber string
  | JString string
  | JArray "json list"
  | JObject "(string \<times> json) list"

definition is_ws :: "char \<Rightarrow> bool" where
  "is_ws c \<longleftrightarrow> c = CHR 0x20 \<or> c = CHR 0x09 \<or> c = CHR 0x0A \<or> c = CHR 0x0D"

definition skip_ws :: "string \<Rightarrow> string" where
  "skip_ws s = dropWhile is_ws s"

definition is_digit :: "char \<Rightarrow> bool" where
  "is_digit c \<longleftrightarrow> c \<in> set ''0123456789''"

definition hex_digit :: "char \<Rightarrow> nat option" where
  "hex_digit c =
     (if is_digit c then Some (of_char c - 48)
      else if c \<in> set ''abcdef'' then Some (of_char c - 87)
      else if c \<in> set ''ABCDEF'' then Some (of_char c - 55)
      else None)"

definition json_escape :: "char \<Rightarrow> char option" where
  "json_escape e =
     (if e = CHR 0x22 \<or> e = CHR 0x5C \<or> e = CHR ''/'' then Some e
      else if e = CHR ''b'' then Some (CHR 0x08)
      else if e = CHR ''f'' then Some (CHR 0x0C)
      else if e = CHR ''n'' then Some (CHR 0x0A)
      else if e = CHR ''r'' then Some (CHR 0x0D)
      else if e = CHR ''t'' then Some (CHR 0x09)
      else None)"

text \<open>
  The characters of a string literal after its opening quote, up to the closing quote. The first
  argument bounds the number of characters read; the caller passes the length of the input, which
  is never exceeded. Strings are over 8-bit characters, so a four-digit hexadecimal escape above \<open>00FF\<close>
  is outside the alphabet of this model.
\<close>

fun json_chars :: "nat \<Rightarrow> string \<Rightarrow> (string \<times> string) option" where
  "json_chars 0 s = None"
| "json_chars (Suc n) [] = None"
| "json_chars (Suc n) (c # cs) =
     (if c = CHR 0x22 then Some ([], cs)
      else if c = CHR 0x5C then
        (case cs of
           [] \<Rightarrow> None
         | e # r \<Rightarrow>
             if e = CHR ''u'' then
               (case those (map hex_digit (take 4 r)) of
                  Some [a, b, c', d] \<Rightarrow>
                    map_option (apfst ((#) (char_of (((a * 16 + b) * 16 + c') * 16 + d))))
                      (json_chars n (drop 4 r))
                | _ \<Rightarrow> None)
             else
               (case json_escape e of
                  None \<Rightarrow> None
                | Some x \<Rightarrow> map_option (apfst ((#) x)) (json_chars n r)))
      else if (of_char c :: nat) < 0x20 then None
      else map_option (apfst ((#) c)) (json_chars n cs))"

definition json_number :: "string \<Rightarrow> (json \<times> string) option" where
  "json_number s =
     (let (sign, r0) = (case s of c # cs \<Rightarrow> if c = CHR ''-'' then ([c], cs) else ([], s) | [] \<Rightarrow> ([], s));
          ds = takeWhile is_digit r0;
          r1 = dropWhile is_digit r0;
          (frac, r2) = (case r1 of
                          c # cs \<Rightarrow> if c = CHR ''.'' then (c # takeWhile is_digit cs, dropWhile is_digit cs)
                                    else ([], r1)
                        | [] \<Rightarrow> ([], r1));
          (ex, r3) = (case r2 of
                        c # cs \<Rightarrow>
                          if c = CHR ''e'' \<or> c = CHR ''E'' then
                            (let (sg, cs') = (case cs of
                                                d # ds' \<Rightarrow> if d = CHR ''+'' \<or> d = CHR ''-'' then ([d], ds')
                                                           else ([], cs)
                                              | [] \<Rightarrow> ([], cs))
                             in (c # sg @ takeWhile is_digit cs', dropWhile is_digit cs'))
                          else ([], r2)
                      | [] \<Rightarrow> ([], r2))
      in if ds = [] \<or> (1 < length ds \<and> hd ds = CHR ''0'') then None
         else if length frac = 1 then None
         else if ex \<noteq> [] \<and> \<not> is_digit (last ex) then None
         else Some (JNumber (sign @ ds @ frac @ ex), r3))"

text \<open>
  Recursive descent over the JSON grammar. The first argument bounds the nesting of calls; a call
  consumes at least one character for every two levels, so \<open>JSON_parse\<close> starts it at twice the
  length of the text.
\<close>

fun json_value :: "nat \<Rightarrow> string \<Rightarrow> (json \<times> string) option"
  and json_elements :: "nat \<Rightarrow> string \<Rightarrow> (json list \<times> string) option"
  and json_members :: "nat \<Rightarrow> string \<Rightarrow> ((string \<times> json) list \<times> string) option"
where
  "json_value 0 s = None"
| "json_value (Suc n) s =
     (case skip_ws s of
        [] \<Rightarrow> None
      | c # cs \<Rightarrow>
          if c = CHR ''{'' then
            (case skip_ws cs of
               [] \<Rightarrow> None
             | d # ds \<Rightarrow> if d = CHR ''}'' then Some (JObject [], ds)
                         else map_option (apfst JObject) (json_members n (d # ds)))
          else if c = CHR ''['' then
            (case skip_ws cs of
               [] \<Rightarrow> None
             | d # ds \<Rightarrow> if d = CHR '']'' then Some (JArray [], ds)
                         else map_option (apfst JArray) (json_elements n (d # ds)))
          else if c = CHR 0x22 then map_option (apfst JString) (json_chars (length cs) cs)
          else if c = CHR ''-'' \<or> is_digit c then json_number (c # cs)
          else if take 4 (c # cs) = ''true'' then Some (JBool True, drop 4 (c # cs))
          else if take 5 (c # cs) = ''false'' then Some (JBool False, drop 5 (c # cs))
          else if take 4 (c # cs) = ''null'' then Some (JNull, drop 4 (c # cs))
          else None)"
| "json_elements 0 s = None"
| "json_elements (Suc n) s =
     (case json_value n s of
        None \<Rightarrow> None
      | Some (v, r) \<Rightarrow>
          (case skip_ws r of
             [] \<Rightarrow> None
           | c # cs \<Rightarrow>
               if c = CHR '','' then map_option (apfst ((#) v)) (json_elements n cs)
               else if c = CHR '']'' then Some ([v], cs)
               else None))"
| "json_members 0 s = None"
| "json_members (Suc n) s =
     (case skip_ws s of
        [] \<Rightarrow> None
      | q # ks \<Rightarrow>
          if q \<noteq> CHR 0x22 then None
          else
            (case json_chars (length ks) ks of
               None \<Rightarrow> None
             | Some (k, r) \<Rightarrow>
                 (case skip_ws r of
                    [] \<Rightarrow> None
                  | c # cs \<Rightarrow>
                      if c \<noteq> CHR '':'' then None
                      else
                        (case json_value n cs of
                           None \<Rightarrow> None
                         | Some (v, r') \<Rightarrow>
                             (case skip_ws r' of
                                [] \<Rightarrow> None
                              | c' # cs' \<Rightarrow>
                                  if c' = CHR '','' then map_option (apfst ((#) (k, v))) (json_members n cs')
                                  else if c' = CHR ''}'' then Some ([(k, v)], cs')
                                  else None)))))"

definition JSON_parse :: "string \<Rightarrow> js_error + json" where
  "JSON_parse text =
     (case json_value (2 * length text + 2) text of
        None \<Rightarrow> Inl SyntaxError
      | Some (v, r) \<Rightarrow> if skip_ws r = [] then Inr v else Inl SyntaxError)"

section \<open>Dispatch results and the events of a send\<close>

text \<open>
  One entry of the array a channel's \<open>send\<close> resolves to:
  \<open>{ status: string; recipient: string; response?: any; error?: string }\<close>. The type of
  \<open>recipient\<close> is a parameter, since \<open>WebPushNotifier\<close> stores there whatever the
  subscription's \<open>endpoint\<close> property holds.
\<close>

record ('r, 'a) DispatchResult =
  status :: string
  recipient :: 'r
  response :: "'a option"
  error :: "string option"

text \<open>
  Modelled from the spec: the class \<open>RateLimiter\<close> (\<open>src/core/RateLimiter\<close>) is not among the
  source files. The spec gives \<open>schedule(unit)\<close>: it accepts a zero-argument unit of
  asynchronous work and returns a handle that resolves when the unit has both been admitted under
  the rate policy and completed, successfully or not; a unit runs at once when a token is
  available and is otherwise queued and released in FIFO order at a later refill. The model
  keeps the order and leaves the admission times to the environment.

  A \<open>send\<close> is an asynchronous function: it runs until it awaits, and what happens next is
  decided by the environment. The model is a state machine driven by these events:
  \<^item> \<open>Admit\<close>: the limiter admits the oldest queued unit; the unit runs up to its first
    \<open>await\<close>, which issues its delivery calls.
  \<^item> \<open>Settle k\<close>: the delivery call \<open>k\<close> settles; the code after its \<open>await\<close> runs and
    records the outcome.
  \<^item> \<open>Resume\<close>: the promise \<open>send\<close> awaits has settled and \<open>send\<close> runs on to its next
    \<open>await\<close> or to its end.
  An event that cannot occur in a state has no successor (\<open>None\<close>).
\<close>

datatype event = Admit | Settle nat | Resume

fun run :: "('e \<Rightarrow> 's \<Rightarrow> 's option) \<Rightarrow> 'e list \<Rightarrow> 's \<Rightarrow> 's option" where
  "run step [] s = Some s"
| "run step (e # es) s = (case step e s of None \<Rightarrow> None | Some s' \<Rightarrow> run step es s')"

text \<open>
  Where a \<open>send\<close> stands between two events. \<open>FirebaseNotifier\<close> awaits the handle of the
  current chunk's unit, which is queued (\<open>AwaitSchedule\<close>) or has been admitted
  (\<open>AwaitChunk\<close>). \<open>WebPushNotifier\<close> awaits \<open>Promise.all(tasks)\<close> inside its loop
  (\<open>AwaitBatch\<close>) or after it (\<open>AwaitRemaining\<close>); its earlier variant awaits
  \<open>Promise.race(activeSends)\<close> inside the loop (\<open>AwaitRace\<close>) and
  \<open>Promise.all(activeSends)\<close> after it (\<open>AwaitAll\<close>). A call has returned its results, has
  raised an error, or never returns. \<open>InLoop\<close> marks a state inside a synchronous stretch of the
  loop; no event starts from it.
\<close>

datatype send_pc =
    AwaitSchedule
  | AwaitChunk
  | InLoop
  | AwaitBatch
  | AwaitRemaining
  | AwaitRace
  | AwaitAll
  | Returned
  | Raised js_error
  | NeverReturns

section \<open>FirebaseNotifier\<close>

text \<open>
  Modelled from the spec: the type \<open>FirebaseNotificationOptions\<close> is declared in
  \<open>NotificationChannel.ts\<close>, which is not among the source files. The spec gives the
  per-recipient metadata as an entry carrying transport-specific fields, among them title, body,
  structured data payload and dry-run flag; \<open>send\<close> reads these four, each of which may be
  absent, and hands the data to Firebase as a mapping from strings to strings.
\<close>

record FirebaseNotificationOptions =
  title :: "string option"
  body :: "string option"
  data :: "(string \<times> string) list option"
  dryRun :: "bool option"

text \<open>An entry that carries a title and nothing else.\<close>

definition titled :: "string \<Rightarrow> FirebaseNotificationOptions" where
  "titled t = \<lparr>title = Some t, body = None, data = None, dryRun = None\<rparr>"

text \<open>The message handed to \<open>messaging.send\<close>: \<open>{ token, notification: { title, body }, data }\<close>.\<close>

record fcm_message =
  token :: string
  notification_title :: string
  notification_body :: string
  message_data :: "(string \<times> string) list"

text \<open>
  The delivery capability \<open>messaging.send(message, dryRun)\<close>. It resolves to a message id
  (\<open>Inr\<close>) or rejects with an error (\<open>Inl\<close>, its message). The first argument identifies the
  call: it is the position of the call's recipient in \<open>userIds\<close>, so that two calls with equal
  arguments may still end differently.
\<close>

type_synonym messaging_send = "nat \<Rightarrow> fcm_message \<Rightarrow> bool \<Rightarrow> string + string"

text \<open>\<open>array.slice(start, end)\<close> for \<open>0 \<le> start\<close> and \<open>0 \<le> end\<close>.\<close>

definition slice :: "'a list \<Rightarrow> nat \<Rightarrow> nat \<Rightarrow> 'a list" where
  "slice array start end = drop start (take end array)"

text \<open>
  \<open>chunkArray\<close>: the loop \<open>for (let i = 0; i < array.length; i += chunkSize)\<close>, from its
  current \<open>i\<close>. With \<open>chunkSize = 0\<close> and \<open>i < array.length\<close> the loop never advances and
  the function does not return: that is the value \<open>None\<close>.
\<close>

function chunkArray_from :: "nat \<Rightarrow> 'a list \<Rightarrow> nat \<Rightarrow> 'a list list option" where
  "chunkArray_from i array chunkSize =
     (if i < length array then
        (if chunkSize = 0 then None
         else map_option ((#) (slice array i (i + chunkSize)))
                (chunkArray_from (i + chunkSize) array chunkSize))
      else Some [])"
  by pat_completeness auto
termination
  by (relation "measure (\<lambda>(i, array, chunkSize). length array - i)") auto

declare chunkArray_from.simps [simp del]

definition chunkArray :: "'a list \<Rightarrow> nat \<Rightarrow> 'a list list option" where
  "chunkArray array chunkSize = chunkArray_from 0 array chunkSize"

text \<open>\<open>const userMeta = meta ? meta[index] : undefined\<close>\<close>

definition userMeta_at :: "FirebaseNotificationOptions list option \<Rightarrow> nat \<Rightarrow> FirebaseNotificationOptions option" where
  "userMeta_at meta index =
     (case meta of
        None \<Rightarrow> None
      | Some m \<Rightarrow> if index < length m then Some (m ! index) else None)"

text \<open>The payload spread into the message, and the \<open>dryRun\<close> argument.\<close>

definition fb_message :: "string \<Rightarrow> FirebaseNotificationOptions option \<Rightarrow> fcm_message" where
  "fb_message userId userMeta =
     \<lparr>token = userId,
      notification_title = str_or (Option.bind userMeta title) ''Default Notification'',
      notification_body = str_or (Option.bind userMeta body) [],
      message_data = (case Option.bind userMeta data of None \<Rightarrow> [] | Some d \<Rightarrow> d)\<rparr>"

definition fb_dryRun :: "FirebaseNotificationOptions option \<Rightarrow> bool" where
  "fb_dryRun userMeta = (case Option.bind userMeta dryRun of None \<Rightarrow> False | Some b \<Rightarrow> b)"

text \<open>The \<open>try\<close>/\<open>catch\<close> around the call: what is pushed to \<open>results\<close> for each outcome.\<close>

definition fb_record :: "string \<Rightarrow> string + string \<Rightarrow> (string, string) DispatchResult" where
  "fb_record userId outcome =
     (case outcome of
        Inr response' \<Rightarrow> \<lparr>status = ''success'', recipient = userId, response = Some response', error = None\<rparr>
      | Inl message \<Rightarrow> \<lparr>status = ''failed'', recipient = userId, response = None, error = Some message\<rparr>)"

text \<open>
  The callback \<open>async (userId, index) => ...\<close> that \<open>tokens.map\<close> runs for the chunk
  \<open>chunk_no\<close>: the argument pair is \<open>(index, userId)\<close>.
\<close>

definition fb_outcome :: "messaging_send \<Rightarrow> FirebaseNotificationOptions list option \<Rightarrow> nat \<Rightarrow> nat \<times> string
    \<Rightarrow> string + string" where
  "fb_outcome messaging_send meta chunk_no = (\<lambda>(index, userId).
     let userMeta = userMeta_at meta index
     in messaging_send (chunk_no * 500 + index) (fb_message userId userMeta) (fb_dryRun userMeta))"

definition fb_callback :: "messaging_send \<Rightarrow> FirebaseNotificationOptions list option \<Rightarrow> nat \<Rightarrow> nat \<times> string
    \<Rightarrow> (string, string) DispatchResult" where
  "fb_callback messaging_send meta chunk_no p = fb_record (snd p) (fb_outcome messaging_send meta chunk_no p)"

text \<open>
  The state of a \<open>send\<close>: the chunks the \<open>for\<close> loop has not reached, the number and the tokens
  of the chunk it is at, the callbacks of that chunk whose call is pending, and \<open>results\<close>.
\<close>

record fb_state =
  fb_pc :: send_pc
  fb_rest :: "string list list"
  fb_chunk_no :: nat
  fb_tokens :: "string list"
  fb_pending :: "(nat \<times> string) list"
  fb_results :: "(string, string) DispatchResult list"

text \<open>
  The head of \<open>for (const tokens of tokensChunks)\<close>: with a chunk left, its unit is handed to
  \<open>rateLimiter.schedule\<close> and \<open>send\<close> awaits the handle; with none left, \<open>send\<close> returns
  \<open>results\<close>.
\<close>

definition fb_loop :: "string list list \<Rightarrow> nat \<Rightarrow> (string, string) DispatchResult list \<Rightarrow> fb_state" where
  "fb_loop chunks k results =
     (case chunks of
        [] \<Rightarrow> \<lparr>fb_pc = Returned, fb_rest = [], fb_chunk_no = k, fb_tokens = [], fb_pending = [],
               fb_results = results\<rparr>
      | tokens # rest \<Rightarrow> \<lparr>fb_pc = AwaitSchedule, fb_rest = rest, fb_chunk_no = k, fb_tokens = tokens,
               fb_pending = [], fb_results = results\<rparr>)"

text \<open>
  \<open>send\<close> up to its first \<open>await\<close>. The constructor has initialised the Firebase app, so
  \<open>admin.messaging()\<close> yields the delivery capability. The class \<open>Logger\<close> is not among
  the source files; its methods are taken to return normally and to have no part in the result.
  What can still fail in a call of \<open>Logger\<close> is the evaluation of its arguments. Here they are
  \<open>userId\<close>, a string, \<open>JSON.stringify(response)\<close> of the string \<open>messaging.send\<close>
  resolves to, and the caught \<open>error\<close> itself: none of them throws.
\<close>

definition FirebaseNotifier_send :: "string list \<Rightarrow> fb_state" where
  "FirebaseNotifier_send userIds =
     (case chunkArray userIds 500 of
        None \<Rightarrow> \<lparr>fb_pc = NeverReturns, fb_rest = [], fb_chunk_no = 0, fb_tokens = [], fb_pending = [],
                 fb_results = []\<rparr>
      | Some tokensChunks \<Rightarrow> fb_loop tokensChunks 0 [])"

text \<open>
  The events. Admission runs the unit: \<open>tokens.map\<close> starts every callback of the chunk, each
  up to its \<open>await messaging.send(...)\<close>. \<open>Settle index\<close> completes the call of the callback
  with that index. The unit's \<open>Promise.all\<close>, and with it the handle \<open>send\<close> awaits, resolves
  when no callback of the chunk is pending.
\<close>

fun fb_step :: "messaging_send \<Rightarrow> FirebaseNotificationOptions list option \<Rightarrow> event \<Rightarrow> fb_state \<Rightarrow> fb_state option" where
  "fb_step messaging_send meta Admit s =
     (if fb_pc s = AwaitSchedule
      then Some (s\<lparr>fb_pc := AwaitChunk, fb_pending := enumerate 0 (fb_tokens s)\<rparr>)
      else None)"
| "fb_step messaging_send meta (Settle index) s =
     (if fb_pc s = AwaitChunk then
        (case map_of (fb_pending s) index of
           None \<Rightarrow> None
         | Some userId \<Rightarrow>
             Some (s\<lparr>fb_pending := remove1 (index, userId) (fb_pending s),
                     fb_results := fb_results s @ [fb_callback messaging_send meta (fb_chunk_no s) (index, userId)]\<rparr>))
      else None)"
| "fb_step messaging_send meta Resume s =
     (if fb_pc s = AwaitChunk \<and> fb_pending s = []
      then Some (fb_loop (fb_rest s) (fb_chunk_no s + 1) (fb_results s))
      else None)"

section \<open>WebPushNotifier\<close>

text \<open>
  Reading a property of a value that \<open>JSON.parse\<close> returned. An object has the members it
  was parsed with, the last one of a name; a number, a string, a boolean or an array has no
  property of the name (\<open>undefined\<close>, here \<open>None\<close>); \<open>null\<close> has no properties at all, and
  reading one throws. \<open>endpoint\<close> is the read \<open>subscription.endpoint\<close> by itself, as in
  \<open>recipient: subscription.endpoint\<close>.
\<close>

definition property :: "json \<Rightarrow> string \<Rightarrow> json option" where
  "property v name = (case v of JObject members \<Rightarrow> map_of (rev members) name | _ \<Rightarrow> None)"

definition endpoint :: "json \<Rightarrow> js_error + json option" where
  "endpoint subscription =
     (if subscription = JNull then Inl TypeError else Inr (property subscription ''endpoint''))"

text \<open>
  The conversion to a string that a template literal applies to the value it embeds, for a value
  that \<open>JSON.parse\<close> returned: whether it yields a string (\<open>True\<close>) or throws a
  \<open>TypeError\<close>. The string itself only reaches the logger.
  \<^item> \<open>null\<close>, a boolean, a number and a string always have one.
  \<^item> An object is converted by its method \<open>toString\<close> and, failing that, \<open>valueOf\<close>. A
    parsed object inherits both from \<open>Object.prototype\<close>, and the inherited \<open>toString\<close>
    answers \<open>[object Object]\<close>. A member named \<open>toString\<close> hides the inherited method and is
    never a function; \<open>valueOf\<close> is then either a member too, so not a function, or the
    inherited one, which answers the object itself, not a primitive value: the conversion throws.
  \<^item> An array is converted by \<open>Array.prototype.join\<close>, which a parsed array cannot hide: it
    converts every element other than \<open>null\<close> in the same way.
\<close>

fun ToString_returns :: "json \<Rightarrow> bool" where
  "ToString_returns (JObject members) \<longleftrightarrow> map_of members ''toString'' = None"
| "ToString_returns (JArray elements) \<longleftrightarrow> list_all ToString_returns elements"
| "ToString_returns v \<longleftrightarrow> True"

text \<open>
  The template literals of the unit, \<open>`... ${subscription.endpoint}`\<close> in the argument of
  \<open>Logger.log\<close> and \<open>`... ${subscription.endpoint}):`\<close> in that of \<open>Logger.error\<close>: the read
  of the property, then the conversion of what was read; \<open>undefined\<close> converts to a string.
\<close>

definition endpoint_template :: "json \<Rightarrow> js_error + unit" where
  "endpoint_template subscription =
     (case endpoint subscription of
        Inl thrown \<Rightarrow> Inl thrown
      | Inr None \<Rightarrow> Inr ()
      | Inr (Some v) \<Rightarrow> if ToString_returns v then Inr () else Inl TypeError)"

text \<open>\<open>userIds.map((id) => JSON.parse(id))\<close>: the first identifier that does not parse throws.\<close>

fun parse_subscriptions :: "string list \<Rightarrow> js_error + json list" where
  "parse_subscriptions [] = Inr []"
| "parse_subscriptions (userId # userIds) =
     (case JSON_parse userId of
        Inl thrown \<Rightarrow> Inl thrown
      | Inr subscription \<Rightarrow>
          (case parse_subscriptions userIds of
             Inl thrown \<Rightarrow> Inl thrown
           | Inr subscriptions \<Rightarrow> Inr (subscription # subscriptions)))"

text \<open>
  Modelled from the spec: the type \<open>WebPush\<close> is declared in \<open>NotificationChannel.ts\<close>,
  which is not among the source files. The spec gives the per-recipient metadata as an entry
  carrying title, body, structured data payload, time-to-live, transport-specific signing details
  and headers; \<open>send\<close> reads these six fields, each of which may be absent. The structured
  data payload is a mapping.
\<close>

record VapidDetails =
  subject :: string
  publicKey :: string
  privateKey :: string

record WebPush =
  title :: "string option"
  body :: "string option"
  data :: "(string \<times> json) list option"
  TTL :: "int option"
  vapidDetails :: "VapidDetails option"
  headers :: "(string \<times> string) list option"

text \<open>
  The object that \<open>JSON.stringify\<close> turns into the payload string, and the request options. An
  absent field is \<open>None\<close>; \<open>JSON.stringify\<close> leaves such a field out.
\<close>

record push_payload =
  payload_title :: string
  payload_body :: "string option"
  payload_data :: "(string \<times> json) list"

record request_options =
  options_TTL :: "int option"
  options_vapidDetails :: "VapidDetails option"
  options_headers :: "(string \<times> string) list option"

text \<open>
  The delivery capability \<open>webPush.sendNotification(subscription, payload, options)\<close>; its first
  argument identifies the call by the position of its recipient, as for \<open>messaging_send\<close>.
\<close>

type_synonym 'a sendNotification = "nat \<Rightarrow> json \<Rightarrow> push_payload \<Rightarrow> request_options \<Rightarrow> string + 'a"

definition maxConcurrentSends :: nat where
  "maxConcurrentSends = 5"

text \<open>
  \<open>const pushMeta = meta[i] ?? { title: "Notification", body: "", data: {} }\<close>. The parameter
  \<open>meta\<close> is declared without \<open>?\<close>; called without it, \<open>meta[i]\<close> reads a property of
  \<open>undefined\<close>.
\<close>

definition pushMeta_of :: "WebPush list \<Rightarrow> nat \<Rightarrow> WebPush" where
  "pushMeta_of m i =
     (if i < length m then m ! i
      else \<lparr>title = Some ''Notification'', body = Some [], data = Some [],
            TTL = None, vapidDetails = None, headers = None\<rparr>)"

definition pushMeta_at :: "WebPush list option \<Rightarrow> nat \<Rightarrow> js_error + WebPush" where
  "pushMeta_at meta i = (case meta of None \<Rightarrow> Inl TypeError | Some m \<Rightarrow> Inr (pushMeta_of m i))"

definition pushPayload :: "WebPush \<Rightarrow> push_payload" where
  "pushPayload pushMeta =
     \<lparr>payload_title = str_or (title pushMeta) ''Notification'',
      payload_body = Some (str_or (body pushMeta) []),
      payload_data = (case data pushMeta of None \<Rightarrow> [] | Some d \<Rightarrow> d)\<rparr>"

definition requestOptions :: "WebPush \<Rightarrow> request_options" where
  "requestOptions pushMeta =
     \<lparr>options_TTL = TTL pushMeta, options_vapidDetails = vapidDetails pushMeta,
      options_headers = headers pushMeta\<rparr>"

text \<open>
  \<open>results.push({ status, recipient: subscription.endpoint, ... })\<close>: the object literal reads
  \<open>subscription.endpoint\<close>; what it reads is stored as it is.
\<close>

definition wp_push :: "string \<Rightarrow> json \<Rightarrow> 'a option \<Rightarrow> string option
    \<Rightarrow> js_error + (json option, 'a) DispatchResult" where
  "wp_push status' subscription response' error' =
     (case endpoint subscription of
        Inl thrown \<Rightarrow> Inl thrown
      | Inr ep \<Rightarrow> Inr \<lparr>status = status', recipient = ep, response = response', error = error'\<rparr>)"

text \<open>
  The rest of the unit, from the outcome of its delivery call on. The class \<open>Logger\<close> is not
  among the source files; its methods are taken to return normally, so a call of \<open>Logger\<close>
  fails only where the evaluation of its arguments does.

  In the \<open>try\<close> block, after a delivery that succeeded, the template literal of \<open>Logger.log\<close>
  is evaluated and then the success is pushed. The \<open>catch\<close> block is entered with the rejection
  of the delivery call or with the error thrown in the \<open>try\<close> block; it evaluates the template
  literal of \<open>Logger.error\<close>, then \<open>error.message\<close>, and then pushes the failure. An error
  thrown in the \<open>catch\<close> block leaves the unit (\<open>Inl\<close>) with nothing pushed. Both template
  literals embed the same \<open>subscription.endpoint\<close>: when the one in the \<open>try\<close> block throws,
  so does the one in the \<open>catch\<close> block, and the message of the error the \<open>catch\<close> block was
  entered with (\<open>None\<close> stands for it) is never recorded.
\<close>

definition wp_unit :: "json \<Rightarrow> string + 'a \<Rightarrow> js_error + (json option, 'a) DispatchResult" where
  "wp_unit subscription outcome =
     (let catch = (\<lambda>message.
            case endpoint_template subscription of
              Inl thrown \<Rightarrow> Inl thrown
            | Inr logged \<Rightarrow> wp_push ''failed'' subscription None message)
      in case outcome of
           Inl message \<Rightarrow> catch (Some message)
         | Inr response' \<Rightarrow>
             (case endpoint_template subscription of
                Inl thrown \<Rightarrow> catch None
              | Inr logged \<Rightarrow>
                  (case wp_push ''success'' subscription (Some response') None of
                     Inl thrown \<Rightarrow> catch None
                   | Inr result \<Rightarrow> Inr result)))"

text \<open>
  The subscriptions for which the unit records a result: those whose template literals do not
  throw.
\<close>

definition endpoint_printable :: "json \<Rightarrow> bool" where
  "endpoint_printable subscription \<longleftrightarrow> endpoint_template subscription = Inr ()"

text \<open>
  A unit handed to \<open>rateLimiter.schedule\<close> is queued, then running (its delivery call is
  pending), then settled; its handle resolves when it is settled.
\<close>

datatype unit_state = Queued | Running | Settled

text \<open>
  The state of a \<open>send\<close>: the parsed subscriptions, the loop variable \<open>i\<close>, the array
  \<open>tasks\<close> of handles (each named by the position of its recipient), the state of every unit
  scheduled so far (in the order of scheduling, which is the order of the recipients), and
  \<open>results\<close>.
\<close>

record 'a wp_state =
  wp_pc :: send_pc
  wp_subscriptions :: "json list"
  wp_i :: nat
  wp_tasks :: "nat list"
  wp_units :: "unit_state list"
  wp_results :: "(json option, 'a) DispatchResult list"

text \<open>
  The \<open>for\<close> loop from its current \<open>i\<close> up to the next \<open>await\<close>, and the code after the
  loop.
\<close>

function wp_loop :: "WebPush list option \<Rightarrow> 'a wp_state \<Rightarrow> 'a wp_state" where
  "wp_loop meta s =
     (if wp_i s < length (wp_subscriptions s) then
        (case pushMeta_at meta (wp_i s) of
           Inl thrown \<Rightarrow> s\<lparr>wp_pc := Raised thrown\<rparr>
         | Inr pushMeta \<Rightarrow>
             (let s1 = s\<lparr>wp_units := wp_units s @ [Queued], wp_tasks := wp_tasks s @ [wp_i s]\<rparr>
              in if length (wp_tasks s1) = maxConcurrentSends then s1\<lparr>wp_pc := AwaitBatch\<rparr>
                 else wp_loop meta (s1\<lparr>wp_i := wp_i s + 1\<rparr>)))
      else if 0 < length (wp_tasks s) then s\<lparr>wp_pc := AwaitRemaining\<rparr>
      else s\<lparr>wp_pc := Returned\<rparr>)"
  by pat_completeness auto
termination
  by (relation "measure (\<lambda>(meta, s). length (wp_subscriptions s) - wp_i s)") auto

declare wp_loop.simps [simp del]

text \<open>\<open>send\<close> up to its first \<open>await\<close>.\<close>

definition WebPushNotifier_send :: "string list \<Rightarrow> WebPush list option \<Rightarrow> 'a wp_state" where
  "WebPushNotifier_send userIds meta =
     (case parse_subscriptions userIds of
        Inl thrown \<Rightarrow> \<lparr>wp_pc = Raised thrown, wp_subscriptions = [], wp_i = 0, wp_tasks = [],
                        wp_units = [], wp_results = []\<rparr>
      | Inr subscriptions \<Rightarrow>
          wp_loop meta \<lparr>wp_pc = InLoop, wp_subscriptions = subscriptions, wp_i = 0, wp_tasks = [],
                         wp_units = [], wp_results = []\<rparr>)"

text \<open>The limiter admits the oldest queued unit.\<close>

fun admit :: "unit_state list \<Rightarrow> unit_state list option" where
  "admit [] = None"
| "admit (Queued # units) = Some (Running # units)"
| "admit (u # units) = map_option ((#) u) (admit units)"

definition settled :: "unit_state list \<Rightarrow> nat \<Rightarrow> bool" where
  "settled units task \<longleftrightarrow> task < length units \<and> units ! task = Settled"

definition settle :: "nat \<Rightarrow> js_error + (json option, 'a) DispatchResult \<Rightarrow> 'a wp_state \<Rightarrow> 'a wp_state" where
  "settle task completion s =
     (case completion of
        Inl thrown \<Rightarrow> s\<lparr>wp_units := (wp_units s)[task := Settled]\<rparr>
      | Inr result \<Rightarrow> s\<lparr>wp_units := (wp_units s)[task := Settled], wp_results := wp_results s @ [result]\<rparr>)"

text \<open>
  The events. \<open>await Promise.all(tasks)\<close> continues when every handle in \<open>tasks\<close> has
  resolved; inside the loop \<open>tasks.length = 0\<close> and the increment of \<open>i\<close> follow.
\<close>

fun wp_step :: "'a sendNotification \<Rightarrow> WebPush list option \<Rightarrow> event \<Rightarrow> 'a wp_state \<Rightarrow> 'a wp_state option" where
  "wp_step sendNotification meta Admit s =
     map_option (\<lambda>units. s\<lparr>wp_units := units\<rparr>) (admit (wp_units s))"
| "wp_step sendNotification meta (Settle task) s =
     (if task < length (wp_units s) \<and> wp_units s ! task = Running \<and> task < length (wp_subscriptions s) then
        (case pushMeta_at meta task of
           Inl thrown \<Rightarrow> None
         | Inr pushMeta \<Rightarrow>
             (let subscription = wp_subscriptions s ! task
              in Some (settle task
                   (wp_unit subscription
                      (sendNotification task subscription (pushPayload pushMeta) (requestOptions pushMeta))) s)))
      else None)"
| "wp_step sendNotification meta Resume s =
     (case wp_pc s of
        AwaitBatch \<Rightarrow>
          if list_all (settled (wp_units s)) (wp_tasks s)
          then Some (wp_loop meta (s\<lparr>wp_pc := InLoop, wp_tasks := [], wp_i := wp_i s + 1\<rparr>))
          else None
      | AwaitRemaining \<Rightarrow>
          if list_all (settled (wp_units s)) (wp_tasks s) then Some (s\<lparr>wp_pc := Returned\<rparr>) else None
      | _ \<Rightarrow> None)"

subsection \<open>The earlier variant of WebPushNotifier.send\<close>

text \<open>
  The variant of the class that follows \<open>FirebaseNotifier\<close> in \<open>FirebaseNotifier.ts\<close>. It
  differs in the default entry (\<open>meta[i] || {}\<close>), in the body of the payload (\<open>pushMeta.body\<close>
  without a default) and in how it bounds the sends in flight: it keeps the handles in
  \<open>activeSends\<close> (the field \<open>wp_tasks\<close>), and with \<open>maxConcurrentSends\<close> or more of them it
  awaits \<open>Promise.race(activeSends)\<close> and then keeps the handles that satisfy
  \<open>(task) => !task.finally\<close>. After the loop it awaits \<open>Promise.all(activeSends)\<close>.
\<close>

definition prior_pushMeta_of :: "WebPush list \<Rightarrow> nat \<Rightarrow> WebPush" where
  "prior_pushMeta_of m i =
     (if i < length m then m ! i
      else \<lparr>title = None, body = None, data = None, TTL = None, vapidDetails = None, headers = None\<rparr>)"

definition prior_pushMeta_at :: "WebPush list option \<Rightarrow> nat \<Rightarrow> js_error + WebPush" where
  "prior_pushMeta_at meta i =
     (case meta of None \<Rightarrow> Inl TypeError | Some m \<Rightarrow> Inr (prior_pushMeta_of m i))"

definition prior_pushPayload :: "WebPush \<Rightarrow> push_payload" where
  "prior_pushPayload pushMeta =
     \<lparr>payload_title = str_or (title pushMeta) ''Notification'',
      payload_body = body pushMeta,
      payload_data = (case data pushMeta of None \<Rightarrow> [] | Some d \<Rightarrow> d)\<rparr>"

text \<open>\<open>task.finally\<close>: every promise has the method, and a function is truthy.\<close>

definition has_finally :: "nat \<Rightarrow> bool" where
  "has_finally task = True"

function prior_loop :: "WebPush list option \<Rightarrow> 'a wp_state \<Rightarrow> 'a wp_state" where
  "prior_loop meta s =
     (if wp_i s < length (wp_subscriptions s) then
        (case prior_pushMeta_at meta (wp_i s) of
           Inl thrown \<Rightarrow> s\<lparr>wp_pc := Raised thrown\<rparr>
         | Inr pushMeta \<Rightarrow>
             (let s1 = s\<lparr>wp_units := wp_units s @ [Queued], wp_tasks := wp_tasks s @ [wp_i s]\<rparr>
              in if maxConcurrentSends \<le> length (wp_tasks s1) then s1\<lparr>wp_pc := AwaitRace\<rparr>
                 else prior_loop meta (s1\<lparr>wp_i := wp_i s + 1\<rparr>)))
      else s\<lparr>wp_pc := AwaitAll\<rparr>)"
  by pat_completeness auto
termination
  by (relation "measure (\<lambda>(meta, s). length (wp_subscriptions s) - wp_i s)") auto

declare prior_loop.simps [simp del]

definition WebPushNotifier_prior_send :: "string list \<Rightarrow> WebPush list option \<Rightarrow> 'a wp_state" where
  "WebPushNotifier_prior_send userIds meta =
     (case parse_subscriptions userIds of
        Inl thrown \<Rightarrow> \<lparr>wp_pc = Raised thrown, wp_subscriptions = [], wp_i = 0, wp_tasks = [],
                        wp_units = [], wp_results = []\<rparr>
      | Inr subscriptions \<Rightarrow>
          prior_loop meta \<lparr>wp_pc = InLoop, wp_subscriptions = subscriptions, wp_i = 0, wp_tasks = [],
                            wp_units = [], wp_results = []\<rparr>)"

text \<open>
  \<open>await Promise.race(activeSends)\<close> continues when one of the handles has resolved.
\<close>

fun prior_step :: "'a sendNotification \<Rightarrow> WebPush list option \<Rightarrow> event \<Rightarrow> 'a wp_state \<Rightarrow> 'a wp_state option" where
  "prior_step sendNotification meta Admit s =
     map_option (\<lambda>units. s\<lparr>wp_units := units\<rparr>) (admit (wp_units s))"
| "prior_step sendNotification meta (Settle task) s =
     (if task < length (wp_units s) \<and> wp_units s ! task = Running \<and> task < length (wp_subscriptions s) then
        (case prior_pushMeta_at meta task of
           Inl thrown \<Rightarrow> None
         | Inr pushMeta \<Rightarrow>
             (let subscription = wp_subscriptions s ! task
              in Some (settle task
                   (wp_unit subscription
                      (sendNotification task subscription (prior_pushPayload pushMeta) (requestOptions pushMeta))) s)))
      else None)"
| "prior_step sendNotification meta Resume s =
     (case wp_pc s of
        AwaitRace \<Rightarrow>
          if list_ex (settled (wp_units s)) (wp_tasks s)
          then Some (prior_loop meta
                 (s\<lparr>wp_pc := InLoop, wp_tasks := filter (\<lambda>task. \<not> has_finally task) (wp_tasks s),
                    wp_i := wp_i s + 1\<rparr>))
          else None
      | AwaitAll \<Rightarrow>
          if list_all (settled (wp_units s)) (wp_tasks s) then Some (s\<lparr>wp_pc := Returned\<rparr>) else None
      | _ \<Rightarrow> None)"

section \<open>NotifierRegistry\<close>

text \<open>
  Modelled from the spec: the class \<open>NotifierRegistry\<close> (\<open>src/core/NotifierRegistry\<close>) is
  not among the source files, only its test suite is. The spec gives a process-wide mapping from
  channel name to channel with three operations: \<open>register\<close> is an unconditional
  insert-or-replace, \<open>get\<close> returns the registered channel or fails with a not-registered
  error carrying the requested name, \<open>clear\<close> empties the mapping. The text of the error is
  the one the test suite expects: \<open>Notifier for <name> not registered\<close>.
\<close>

type_synonym 'c registry = "string \<rightharpoonup> 'c"

definition NotifierRegistry_register :: "string \<Rightarrow> 'c \<Rightarrow> 'c registry \<Rightarrow> 'c registry" where
  "NotifierRegistry_register name channel registry = registry(name \<mapsto> channel)"

definition NotifierRegistry_get :: "string \<Rightarrow> 'c registry \<Rightarrow> string + 'c" where
  "NotifierRegistry_get name registry =
     (case registry name of
        None \<Rightarrow> Inl (''Notifier for '' @ name @ '' not registered'')
      | Some channel \<Rightarrow> Inr channel)"

definition NotifierRegistry_clear :: "'c registry \<Rightarrow> 'c registry" where
  "NotifierRegistry_clear registry = Map.empty"

text \<open>The calls a process makes on the registry, and the registry they leave behind.\<close>

datatype 'c registry_call = Register string 'c | Clear

fun registry_after :: "'c registry_call list \<Rightarrow> 'c registry \<Rightarrow> 'c registry" where
  "registry_after [] registry = registry"
| "registry_after (Register name channel # calls) registry =
     registry_after calls (NotifierRegistry_register name channel registry)"
| "registry_after (Clear # calls) registry = registry_after calls (NotifierRegistry_clear registry)"

text \<open>The names registered since the last \<open>clear\<close>, given those registered before the calls.\<close>

fun registered_since_clear :: "'c registry_call list \<Rightarrow> string list \<Rightarrow> string list" where
  "registered_since_clear [] names = names"
| "registered_since_clear (Register name channel # calls) names =
     registered_since_clear calls (name # names)"
| "registered_since_clear (Clear # calls) names = registered_since_clear calls []"

section \<open>Notions used to state the properties\<close>

subsection \<open>FirebaseNotifier\<close>

text \<open>The results of a chunk in the order of its tokens; the argument is (number, tokens).\<close>

definition fb_chunk_results :: "messaging_send \<Rightarrow> FirebaseNotificationOptions list option \<Rightarrow> nat \<times> string list
    \<Rightarrow> (string, string) DispatchResult list" where
  "fb_chunk_results messaging_send meta = (\<lambda>(k, tokens). map (fb_callback messaging_send meta k) (enumerate 0 tokens))"

text \<open>
  A result list is ordered by chunk: its first entries are the results of the first chunk in some
  order, the next ones those of the second chunk, and so on.
\<close>

fun by_chunk :: "messaging_send \<Rightarrow> FirebaseNotificationOptions list option \<Rightarrow> (string, string) DispatchResult list
    \<Rightarrow> (nat \<times> string list) list \<Rightarrow> bool" where
  "by_chunk messaging_send meta rs [] \<longleftrightarrow> rs = []"
| "by_chunk messaging_send meta rs (kc # kcs) \<longleftrightarrow>
     mset (take (length (snd kc)) rs) = mset (fb_chunk_results messaging_send meta kc)
     \<and> by_chunk messaging_send meta (drop (length (snd kc)) rs) kcs"

text \<open>
  The schedule on which every unit is admitted once it is queued and the calls of a chunk settle
  in the order of its tokens.
\<close>

definition fb_schedule :: "string list list \<Rightarrow> event list" where
  "fb_schedule chunks = concat (map (\<lambda>tokens. Admit # map Settle [0..<length tokens] @ [Resume]) chunks)"

text \<open>
  The callbacks of all chunks in the order of the recipients: (chunk number, index, token).
\<close>

definition fb_calls :: "string list list \<Rightarrow> (nat \<times> nat \<times> string) list" where
  "fb_calls chunks = concat (map (\<lambda>(k, tokens). map (Pair k) (enumerate 0 tokens)) (enumerate 0 chunks))"

text \<open>
  The outcome of the call made for the recipient at position \<open>g\<close> of \<open>userIds\<close>, and the result
  recorded for it. The callback for that recipient runs in chunk \<open>g div 500\<close> with index
  \<open>g mod 500\<close> (lemma \<open>fb_calls_positions\<close> below).
\<close>

definition fb_outcome_at :: "messaging_send \<Rightarrow> FirebaseNotificationOptions list option \<Rightarrow> string list \<Rightarrow> nat
    \<Rightarrow> string + string" where
  "fb_outcome_at messaging_send meta userIds g =
     fb_outcome messaging_send meta (g div 500) (g mod 500, userIds ! g)"

definition fb_result_at :: "messaging_send \<Rightarrow> FirebaseNotificationOptions list option \<Rightarrow> string list \<Rightarrow> nat
    \<Rightarrow> (string, string) DispatchResult" where
  "fb_result_at messaging_send meta userIds g = fb_record (userIds ! g) (fb_outcome_at messaging_send meta userIds g)"

text \<open>
  The invariant of the runs of \<open>send\<close>: the chunks before the current one are done, each with
  its results in one block; of the current chunk, every callback is either pending or has its
  result at the end of \<open>results\<close>.
\<close>

definition chunk_perm :: "messaging_send \<Rightarrow> FirebaseNotificationOptions list option \<Rightarrow>
    (string, string) DispatchResult list \<Rightarrow> nat \<times> string list \<Rightarrow> bool" where
  "chunk_perm messaging_send meta R = (\<lambda>(k, tokens).
     \<exists>D. mset D = mset (enumerate 0 tokens) \<and> R = map (fb_callback messaging_send meta k) D)"

definition fb_inv :: "messaging_send \<Rightarrow> FirebaseNotificationOptions list option \<Rightarrow> string list list \<Rightarrow> fb_state \<Rightarrow> bool" where
  "fb_inv messaging_send meta chunks s \<longleftrightarrow>
     (\<exists>Rs. list_all2 (chunk_perm messaging_send meta) Rs (enumerate 0 (take (fb_chunk_no s) chunks))
        \<and> fb_chunk_no s \<le> length chunks
        \<and> (case fb_pc s of
              Returned \<Rightarrow> fb_chunk_no s = length chunks \<and> fb_results s = concat Rs \<and> fb_pending s = []
            | AwaitSchedule \<Rightarrow> drop (fb_chunk_no s) chunks = fb_tokens s # fb_rest s
                \<and> fb_results s = concat Rs \<and> fb_pending s = []
            | AwaitChunk \<Rightarrow> drop (fb_chunk_no s) chunks = fb_tokens s # fb_rest s
                \<and> (\<exists>D. fb_results s = concat Rs @ map (fb_callback messaging_send meta (fb_chunk_no s)) D
                      \<and> mset D + mset (fb_pending s) = mset (enumerate 0 (fb_tokens s)))
            | _ \<Rightarrow> False))"

text \<open>
  Capabilities for the examples: one that always succeeds and answers with the title it was
  given, and one that rejects the call for the recipient at one position.
\<close>

definition echo_title :: messaging_send where
  "echo_title = (\<lambda>g message dry. Inr (notification_title message))"


subsection \<open>WebPushNotifier\<close>

text \<open>
  The outcome of the call made for the recipient at position \<open>task\<close>, how the unit of that
  recipient completes, and, for a subscription whose endpoint the unit can log, the result it
  records.
\<close>

definition wp_outcome :: "'a sendNotification \<Rightarrow> WebPush list \<Rightarrow> json list \<Rightarrow> nat \<Rightarrow> string + 'a" where
  "wp_outcome sendNotification m subscriptions task =
     sendNotification task (subscriptions ! task) (pushPayload (pushMeta_of m task))
       (requestOptions (pushMeta_of m task))"

definition wp_completion :: "'a sendNotification \<Rightarrow> WebPush list \<Rightarrow> json list \<Rightarrow> nat
    \<Rightarrow> js_error + (json option, 'a) DispatchResult" where
  "wp_completion sendNotification m subscriptions task =
     wp_unit (subscriptions ! task) (wp_outcome sendNotification m subscriptions task)"



definition wp_recorded :: "js_error + 'r \<Rightarrow> 'r multiset" where
  "wp_recorded completion = (case completion of Inl thrown \<Rightarrow> {#} | Inr result \<Rightarrow> {#result#})"

text \<open>
  The invariant of the runs of \<open>send\<close>: every handle in \<open>tasks\<close> is of a scheduled unit, every
  scheduled unit whose handle is not in \<open>tasks\<close> is settled, \<open>tasks\<close> never holds more than
  \<open>maxConcurrentSends\<close> handles, and \<open>results\<close> holds what the settled units recorded.
\<close>

definition wp_core :: "'a sendNotification \<Rightarrow> WebPush list \<Rightarrow> json list \<Rightarrow> 'a wp_state \<Rightarrow> bool" where
  "wp_core sendNotification m subscriptions s \<longleftrightarrow>
     wp_subscriptions s = subscriptions
     \<and> length (wp_units s) \<le> length subscriptions
     \<and> (\<forall>t \<in> set (wp_tasks s). t < length (wp_units s))
     \<and> (\<forall>t < length (wp_units s). t \<notin> set (wp_tasks s) \<longrightarrow> wp_units s ! t = Settled)
     \<and> length (wp_tasks s) \<le> maxConcurrentSends
     \<and> mset (wp_results s)
         = (\<Sum>t | settled (wp_units s) t. wp_recorded (wp_completion sendNotification m subscriptions t))"

definition wp_inv :: "'a sendNotification \<Rightarrow> WebPush list \<Rightarrow> json list \<Rightarrow> 'a wp_state \<Rightarrow> bool" where
  "wp_inv sendNotification m subscriptions s \<longleftrightarrow>
     wp_core sendNotification m subscriptions s
     \<and> (case wp_pc s of
           AwaitBatch \<Rightarrow> Suc (wp_i s) = length (wp_units s)
         | AwaitRemaining \<Rightarrow> length (wp_units s) = length subscriptions
         | Returned \<Rightarrow> length (wp_units s) = length subscriptions
              \<and> (\<forall>t < length subscriptions. wp_units s ! t = Settled)
         | _ \<Rightarrow> False)"

text \<open>
  A measure that every step towards the return of \<open>send\<close> decreases: a queued unit has two
  steps to go, a running unit one.
\<close>

fun weight :: "unit_state \<Rightarrow> nat" where
  "weight Queued = 2"
| "weight Running = 1"
| "weight Settled = 0"

definition wp_measure :: "'a wp_state \<Rightarrow> nat" where
  "wp_measure s = (if wp_pc s = Returned then 0 else 1)
     + 3 * (length (wp_subscriptions s) - wp_i s) + sum_list (map weight (wp_units s))"

text \<open>The number of delivery calls that are pending in a state.\<close>

definition calls_pending :: "'a wp_state \<Rightarrow> nat" where
  "calls_pending s = length (filter (\<lambda>u. u = Running) (wp_units s))"

text \<open>Capabilities for the examples: one that always succeeds, one that fails for one recipient.\<close>

definition delivered :: "string sendNotification" where
  "delivered = (\<lambda>task subscription payload options. Inr ''201'')"


section \<open>Runs\<close>

lemma run_append:
  "run step (es @ fs) s = (case run step es s of None \<Rightarrow> None | Some s' \<Rightarrow> run step fs s')"
  by (induction es arbitrary: s) (auto split: option.splits)

lemma run_invariant:
  assumes "run step es s = Some s'" and "I s"
    and "\<And>e t t'. I t \<Longrightarrow> step e t = Some t' \<Longrightarrow> I t'"
  shows "I s'"
  using assms(1,2)
proof (induction es arbitrary: s)
  case Nil
  then show ?case by simp
next
  case (Cons e es)
  then obtain t where t: "step e s = Some t" and r: "run step es t = Some s'"
    by (auto split: option.splits)
  from assms(3) [OF Cons.prems(2) t] have "I t" .
  from Cons.IH [OF r this] show ?case .
qed

section \<open>FirebaseNotifier: chunks\<close>

lemma slice_take_drop: "slice array i (i + c) = take c (drop i array)"
  by (simp add: slice_def drop_take)

lemma chunkArray_from_Some:
  "0 < c \<Longrightarrow> \<exists>chunks. chunkArray_from i array c = Some chunks \<and> concat chunks = drop i array
      \<and> (\<forall>ch \<in> set chunks. ch \<noteq> [] \<and> length ch \<le> c)"
proof (induction i array c rule: chunkArray_from.induct)
  case (1 i array chunkSize)
  show ?case
  proof (cases "i < length array")
    case True
    with 1 obtain chunks where ch: "chunkArray_from (i + chunkSize) array chunkSize = Some chunks"
      "concat chunks = drop (i + chunkSize) array"
      "\<forall>ch \<in> set chunks. ch \<noteq> [] \<and> length ch \<le> chunkSize"
      by auto
    have "take chunkSize (drop i array) @ drop (i + chunkSize) array = drop i array"
      by (metis add.commute append_take_drop_id drop_drop)
    moreover have "take chunkSize (drop i array) \<noteq> []"
      using True 1(2) by simp
    ultimately show ?thesis
      using True 1(2) ch
      by (subst chunkArray_from.simps) (simp add: slice_take_drop)
  next
    case False
    then show ?thesis
      by (subst chunkArray_from.simps) simp
  qed
qed

lemma chunkArray_Some:
  "0 < c \<Longrightarrow> \<exists>chunks. chunkArray array c = Some chunks \<and> concat chunks = array
      \<and> (\<forall>ch \<in> set chunks. ch \<noteq> [] \<and> length ch \<le> c)"
  using chunkArray_from_Some [of c 0 array] by (simp add: chunkArray_def)

lemma first_chunk_calls:
  assumes "0 < c" and "i = c * k" and "i < length xs"
  shows "map (Pair k) (enumerate 0 (take c (drop i xs)))
    = map (\<lambda>g. (g div c, g mod c, xs ! g)) [i..<min (i + c) (length xs)]"
proof (rule nth_equalityI)
  show len: "length (map (Pair k) (enumerate 0 (take c (drop i xs))))
    = length (map (\<lambda>g. (g div c, g mod c, xs ! g)) [i..<min (i + c) (length xs)])"
    using assms by (auto simp: min_def)
  fix j
  assume "j < length (map (Pair k) (enumerate 0 (take c (drop i xs))))"
  then have j: "j < c" "i + j < length xs"
    by auto
  then have "j < length (take c (drop i xs))" by simp
  then have l: "map (Pair k) (enumerate 0 (take c (drop i xs))) ! j = (k, j, xs ! (i + j))"
    using j by (simp add: nth_enumerate_eq)
  have "i + j < min (i + c) (length xs)" using j by simp
  then have "[i..<min (i + c) (length xs)] ! j = i + j"
    by (metis add_diff_inverse_nat less_add_same_cancel1 nat_add_left_cancel_less not_less_zero nth_upt trans_less_add1)
  moreover have "j < length [i..<min (i + c) (length xs)]" using j by simp
  ultimately have r: "map (\<lambda>g. (g div c, g mod c, xs ! g)) [i..<min (i + c) (length xs)] ! j
      = ((i + j) div c, (i + j) mod c, xs ! (i + j))"
    by simp
  have "(i + j) div c = k" "(i + j) mod c = j"
    using assms(1,2) j(1) by simp_all
  with l r show "map (Pair k) (enumerate 0 (take c (drop i xs))) ! j
      = map (\<lambda>g. (g div c, g mod c, xs ! g)) [i..<min (i + c) (length xs)] ! j"
    by simp
qed

lemma calls_from_positions:
  "0 < c \<Longrightarrow> i = c * k \<Longrightarrow> chunkArray_from i xs c = Some chunks \<Longrightarrow>
   concat (map (\<lambda>(k, tokens). map (Pair k) (enumerate 0 tokens)) (enumerate k chunks))
     = map (\<lambda>g. (g div c, g mod c, xs ! g)) [i..<length xs]"
proof (induction i xs c arbitrary: k chunks rule: chunkArray_from.induct)
  case (1 i array chunkSize)
  show ?case
  proof (cases "i < length array")
    case True
    from "1.prems"(3) True "1.prems"(1) obtain chunks' where
      ch: "chunkArray_from (i + chunkSize) array chunkSize = Some chunks'"
      and chunks: "chunks = take chunkSize (drop i array) # chunks'"
      by (subst (asm) chunkArray_from.simps) (auto simp: slice_take_drop)
    have "i + chunkSize = chunkSize * Suc k" using "1.prems"(2) by simp
    from "1.IH" [OF True _ "1.prems"(1) this ch] "1.prems"(1)
    have IH: "concat (map (\<lambda>(k, tokens). map (Pair k) (enumerate 0 tokens)) (enumerate (Suc k) chunks'))
       = map (\<lambda>g. (g div chunkSize, g mod chunkSize, array ! g)) [i + chunkSize..<length array]"
      by simp
    have split: "[i..<length array] = [i..<min (i + chunkSize) (length array)] @ [i + chunkSize..<length array]"
    proof (cases "i + chunkSize \<le> length array")
      case True
      then show ?thesis
        using upt_add_eq_append [of i "i + chunkSize" "length array - (i + chunkSize)"]
        by (simp add: min_def)
    next
      case False
      then show ?thesis by (simp add: min_def)
    qed
    show ?thesis
      unfolding chunks split
      using first_chunk_calls [OF "1.prems"(1,2) True] IH
      by simp
  next
    case False
    with "1.prems"(3) have "chunks = []"
      by (subst (asm) chunkArray_from.simps) simp
    with False show ?thesis by simp
  qed
qed

lemma fb_calls_positions:
  assumes "chunkArray userIds 500 = Some chunks"
  shows "fb_calls chunks = map (\<lambda>g. (g div 500, g mod 500, userIds ! g)) [0..<length userIds]"
  using calls_from_positions [of 500 0 0 userIds chunks] assms
  by (simp add: fb_calls_def chunkArray_def)

lemma fb_all_results_positions:
  assumes "chunkArray userIds 500 = Some chunks"
  shows "concat (map (fb_chunk_results messaging_send meta) (enumerate 0 chunks))
    = map (fb_result_at messaging_send meta userIds) [0..<length userIds]"
proof -
  have "concat (map (fb_chunk_results messaging_send meta) (enumerate 0 chunks))
      = map (\<lambda>(k, p). fb_callback messaging_send meta k p) (fb_calls chunks)"
    unfolding fb_calls_def fb_chunk_results_def map_concat
    by (rule arg_cong [of _ _ concat]) (auto simp: comp_def)
  also have "\<dots> = map (fb_result_at messaging_send meta userIds) [0..<length userIds]"
    unfolding fb_calls_positions [OF assms]
    by (simp add: fb_result_at_def fb_outcome_at_def fb_callback_def comp_def)
  finally show ?thesis .
qed

section \<open>FirebaseNotifier: the invariant of its runs\<close>

lemma fb_inv_loop:
  assumes "list_all2 (chunk_perm messaging_send meta) Rs (enumerate 0 (take k chunks))"
    and "k \<le> length chunks" and "drop k chunks = rest"
  shows "fb_inv messaging_send meta chunks (fb_loop rest k (concat Rs))"
proof (cases rest)
  case Nil
  with assms have "k = length chunks" by simp
  with assms(1) Nil show ?thesis
    unfolding fb_inv_def fb_loop_def by auto
next
  case (Cons tokens rest')
  with assms show ?thesis
    unfolding fb_inv_def fb_loop_def by auto
qed

lemma fb_inv_start:
  assumes "chunkArray userIds 500 = Some chunks"
  shows "fb_inv messaging_send meta chunks (FirebaseNotifier_send userIds)"
proof -
  have "fb_inv messaging_send meta chunks (fb_loop chunks 0 (concat []))"
    by (rule fb_inv_loop) simp_all
  then show ?thesis using assms by (simp add: FirebaseNotifier_send_def)
qed

lemma fb_inv_step:
  assumes inv: "fb_inv messaging_send meta chunks s"
    and step: "fb_step messaging_send meta e s = Some s'"
  shows "fb_inv messaging_send meta chunks s'"
proof -
  from inv obtain Rs where Rs:
    "list_all2 (chunk_perm messaging_send meta) Rs (enumerate 0 (take (fb_chunk_no s) chunks))"
    "fb_chunk_no s \<le> length chunks"
    and pc: "case fb_pc s of
              Returned \<Rightarrow> fb_chunk_no s = length chunks \<and> fb_results s = concat Rs \<and> fb_pending s = []
            | AwaitSchedule \<Rightarrow> drop (fb_chunk_no s) chunks = fb_tokens s # fb_rest s
                \<and> fb_results s = concat Rs \<and> fb_pending s = []
            | AwaitChunk \<Rightarrow> drop (fb_chunk_no s) chunks = fb_tokens s # fb_rest s
                \<and> (\<exists>D. fb_results s = concat Rs @ map (fb_callback messaging_send meta (fb_chunk_no s)) D
                      \<and> mset D + mset (fb_pending s) = mset (enumerate 0 (fb_tokens s)))
            | _ \<Rightarrow> False"
    unfolding fb_inv_def by blast
  show ?thesis
  proof (cases e)
    case Admit
    with step have a: "fb_pc s = AwaitSchedule"
      and s': "s' = s\<lparr>fb_pc := AwaitChunk, fb_pending := enumerate 0 (fb_tokens s)\<rparr>"
      by (auto split: if_splits)
    from pc a have "drop (fb_chunk_no s) chunks = fb_tokens s # fb_rest s" "fb_results s = concat Rs"
      by simp_all
    then have "drop (fb_chunk_no s') chunks = fb_tokens s' # fb_rest s'
        \<and> (\<exists>D. fb_results s' = concat Rs @ map (fb_callback messaging_send meta (fb_chunk_no s')) D
              \<and> mset D + mset (fb_pending s') = mset (enumerate 0 (fb_tokens s')))"
      unfolding s' by (auto intro: exI [of _ "[]"])
    with Rs show ?thesis
      unfolding fb_inv_def s' by (auto intro!: exI [of _ Rs])
  next
    case (Settle index)
    with step obtain userId where a: "fb_pc s = AwaitChunk"
      and m: "map_of (fb_pending s) index = Some userId"
      and s': "s' = s\<lparr>fb_pending := remove1 (index, userId) (fb_pending s),
                      fb_results := fb_results s @ [fb_callback messaging_send meta (fb_chunk_no s) (index, userId)]\<rparr>"
      by (auto split: if_splits option.splits)
    from pc a obtain D where D: "drop (fb_chunk_no s) chunks = fb_tokens s # fb_rest s"
      "fb_results s = concat Rs @ map (fb_callback messaging_send meta (fb_chunk_no s)) D"
      "mset D + mset (fb_pending s) = mset (enumerate 0 (fb_tokens s))"
      by auto
    from m have mem: "(index, userId) \<in> set (fb_pending s)" by (rule map_of_SomeD)
    have "fb_results s' = concat Rs @ map (fb_callback messaging_send meta (fb_chunk_no s')) (D @ [(index, userId)])"
      unfolding s' using D(2) by simp
    moreover have "mset (D @ [(index, userId)]) + mset (fb_pending s') = mset (enumerate 0 (fb_tokens s'))"
    proof -
      from mem have "add_mset (index, userId) (mset (fb_pending s) - {#(index, userId)#}) = mset (fb_pending s)"
        by (simp add: insert_DiffM)
      then have "mset (D @ [(index, userId)]) + mset (remove1 (index, userId) (fb_pending s))
          = mset D + mset (fb_pending s)"
        by simp
      with D(3) show ?thesis unfolding s' by simp
    qed
    ultimately have "\<exists>D. fb_results s' = concat Rs @ map (fb_callback messaging_send meta (fb_chunk_no s')) D
        \<and> mset D + mset (fb_pending s') = mset (enumerate 0 (fb_tokens s'))"
      by blast
    moreover have "fb_pc s' = AwaitChunk" "fb_chunk_no s' = fb_chunk_no s"
      "fb_tokens s' = fb_tokens s" "fb_rest s' = fb_rest s"
      unfolding s' using a by simp_all
    ultimately show ?thesis
      unfolding fb_inv_def using Rs D(1) by (auto intro!: exI [of _ Rs])
  next
    case Resume
    with step have a: "fb_pc s = AwaitChunk" and p: "fb_pending s = []"
      and s': "s' = fb_loop (fb_rest s) (fb_chunk_no s + 1) (fb_results s)"
      by (auto split: if_splits)
    from pc a p obtain D where D: "drop (fb_chunk_no s) chunks = fb_tokens s # fb_rest s"
      "fb_results s = concat Rs @ map (fb_callback messaging_send meta (fb_chunk_no s)) D"
      "mset D = mset (enumerate 0 (fb_tokens s))"
      by auto
    let ?k = "fb_chunk_no s"
    let ?R = "map (fb_callback messaging_send meta ?k) D"
    from D(1) have lt: "?k < length chunks"
      by (metis drop_all list.distinct(1) not_le)
    have tk: "take (Suc ?k) chunks = take ?k chunks @ [fb_tokens s]"
      using D(1) lt by (metis Cons_nth_drop_Suc list.inject take_Suc_conv_app_nth)
    have "chunk_perm messaging_send meta ?R (?k, fb_tokens s)"
      unfolding chunk_perm_def using D(3) by auto
    with Rs(1) lt have all2: "list_all2 (chunk_perm messaging_send meta) (Rs @ [?R])
        (enumerate 0 (take (Suc ?k) chunks))"
      unfolding tk by (simp add: enumerate_append_eq list_all2_appendI min_def)
    have "drop (Suc ?k) chunks = fb_rest s"
      using D(1) by (metis drop_Suc tl_drop list.sel(3))
    with all2 lt have "fb_inv messaging_send meta chunks (fb_loop (fb_rest s) (Suc ?k) (concat (Rs @ [?R])))"
      by (intro fb_inv_loop) simp_all
    then show ?thesis unfolding s' using D(2) by simp
  qed
qed

lemma fb_inv_run:
  assumes "chunkArray userIds 500 = Some chunks"
    and "run (fb_step messaging_send meta) es (FirebaseNotifier_send userIds) = Some s"
  shows "fb_inv messaging_send meta chunks s"
  using assms(2) fb_inv_start [OF assms(1)]
  by (rule run_invariant) (rule fb_inv_step)

lemma chunk_perm_results:
  "chunk_perm messaging_send meta R kc \<Longrightarrow> mset R = mset (fb_chunk_results messaging_send meta kc)"
  unfolding chunk_perm_def fb_chunk_results_def
  by (cases kc) auto

lemma chunk_perm_length:
  "chunk_perm messaging_send meta R kc \<Longrightarrow> length R = length (snd kc)"
  unfolding chunk_perm_def
  by (cases kc) (auto dest: mset_eq_length)

lemma all_chunk_perm_by_chunk:
  "list_all2 (chunk_perm messaging_send meta) Rs kcs \<Longrightarrow> by_chunk messaging_send meta (concat Rs) kcs"
proof (induction rule: list_all2_induct)
  case Nil
  then show ?case by simp
next
  case (Cons R Rs kc kcs)
  from chunk_perm_length [OF Cons.hyps(1)] chunk_perm_results [OF Cons.hyps(1)] Cons.IH
  show ?case by simp
qed



section \<open>FirebaseNotifier: a run that returns\<close>

lemma fb_settle_all:
  assumes "fb_pc s = AwaitChunk" and "fb_pending s = enumerate i ts"
  shows "run (fb_step messaging_send meta) (map Settle [i..<i + length ts]) s
    = Some (s\<lparr>fb_pending := [],
              fb_results := fb_results s @ map (fb_callback messaging_send meta (fb_chunk_no s)) (enumerate i ts)\<rparr>)"
  using assms
proof (induction ts arbitrary: i s)
  case Nil
  then show ?case by simp
next
  case (Cons t ts)
  let ?s = "s\<lparr>fb_pending := enumerate (Suc i) ts,
               fb_results := fb_results s @ [fb_callback messaging_send meta (fb_chunk_no s) (i, t)]\<rparr>"
  have step: "fb_step messaging_send meta (Settle i) s = Some ?s"
    using Cons.prems by simp
  have "run (fb_step messaging_send meta) (map Settle [Suc i..<Suc i + length ts]) ?s
    = Some (?s\<lparr>fb_pending := [],
              fb_results := fb_results ?s @ map (fb_callback messaging_send meta (fb_chunk_no ?s)) (enumerate (Suc i) ts)\<rparr>)"
    by (rule Cons.IH) (simp_all add: Cons.prems)
  moreover have "[i..<i + length (t # ts)] = i # [Suc i..<Suc i + length ts]"
    using upt_conv_Cons [of i "i + length (t # ts)"] by simp
  ultimately show ?case using step by simp
qed

lemma fb_chunk_run:
  assumes "fb_pc s = AwaitSchedule"
  shows "run (fb_step messaging_send meta) (Admit # map Settle [0..<length (fb_tokens s)] @ [Resume]) s
    = Some (fb_loop (fb_rest s) (fb_chunk_no s + 1)
        (fb_results s @ fb_chunk_results messaging_send meta (fb_chunk_no s, fb_tokens s)))"
proof -
  let ?a = "s\<lparr>fb_pc := AwaitChunk, fb_pending := enumerate 0 (fb_tokens s)\<rparr>"
  have a: "fb_step messaging_send meta Admit s = Some ?a"
    using assms by simp
  have "run (fb_step messaging_send meta) (map Settle [0..<0 + length (fb_tokens s)]) ?a
    = Some (?a\<lparr>fb_pending := [],
              fb_results := fb_results ?a @ map (fb_callback messaging_send meta (fb_chunk_no ?a)) (enumerate 0 (fb_tokens s))\<rparr>)"
    by (rule fb_settle_all) simp_all
  then show ?thesis
    using a by (simp add: run_append fb_chunk_results_def)
qed

lemma fb_schedule_run:
  "run (fb_step messaging_send meta) (fb_schedule chunks) (fb_loop chunks k rs)
    = Some \<lparr>fb_pc = Returned, fb_rest = [], fb_chunk_no = k + length chunks, fb_tokens = [],
            fb_pending = [],
            fb_results = rs @ concat (map (fb_chunk_results messaging_send meta) (enumerate k chunks))\<rparr>"
proof (induction chunks arbitrary: k rs)
  case Nil
  then show ?case by (simp add: fb_schedule_def fb_loop_def)
next
  case (Cons tokens chunks)
  let ?s = "fb_loop (tokens # chunks) k rs"
  have pc: "fb_pc ?s = AwaitSchedule" by (simp add: fb_loop_def)
  have sel: "fb_tokens ?s = tokens" "fb_rest ?s = chunks" "fb_chunk_no ?s = k" "fb_results ?s = rs"
    by (simp_all add: fb_loop_def)
  have sch: "fb_schedule (tokens # chunks) = (Admit # map Settle [0..<length tokens] @ [Resume]) @ fb_schedule chunks"
    by (simp add: fb_schedule_def)
  show ?case
    unfolding sch run_append
    using fb_chunk_run [OF pc, of messaging_send meta] Cons.IH [of "Suc k"]
    by (simp add: sel)
qed

text \<open>
  On the schedule \<open>fb_schedule\<close> the call returns, with the results in the order of the
  recipients.
\<close>

lemma fb_returns:
  assumes "chunkArray userIds 500 = Some chunks"
  shows "run (fb_step messaging_send meta) (fb_schedule chunks) (FirebaseNotifier_send userIds)
    = Some \<lparr>fb_pc = Returned, fb_rest = [], fb_chunk_no = length chunks, fb_tokens = [],
            fb_pending = [],
            fb_results = map (fb_result_at messaging_send meta userIds) [0..<length userIds]\<rparr>"
  using fb_schedule_run [of messaging_send meta chunks 0 "[]"] fb_all_results_positions [OF assms] assms
  by (simp add: FirebaseNotifier_send_def)

lemma fb_can_return:
  "\<exists>es s. run (fb_step messaging_send meta) es (FirebaseNotifier_send userIds) = Some s \<and> fb_pc s = Returned"
proof -
  obtain chunks where ch: "chunkArray userIds 500 = Some chunks"
    using chunkArray_Some [of 500 userIds] by auto
  from fb_returns [OF ch, of messaging_send meta] show ?thesis
    by (intro exI [of _ "fb_schedule chunks"]) auto
qed

section \<open>WebPushNotifier: the invariant of its runs\<close>

lemma settled_snoc_Queued: "settled (units @ [Queued]) = settled units"
  by (auto simp: settled_def fun_eq_iff nth_append)

lemma wp_loop_inv:
  assumes "wp_core sendNotification m subscriptions s"
    and "wp_i s = length (wp_units s)"
    and "length (wp_tasks s) < maxConcurrentSends"
  shows "wp_inv sendNotification m subscriptions (wp_loop (Some m) s)"
  using assms
proof (induction "Some m" s rule: wp_loop.induct)
  case (1 s)
  from "1.prems"(1) have subs: "wp_subscriptions s = subscriptions"
    by (simp add: wp_core_def)
  show ?case
  proof (cases "wp_i s < length (wp_subscriptions s)")
    case True
    have pm: "pushMeta_at (Some m) (wp_i s) = Inr (pushMeta_of m (wp_i s))"
      by (simp add: pushMeta_at_def)
    let ?s1 = "s\<lparr>wp_units := wp_units s @ [Queued], wp_tasks := wp_tasks s @ [wp_i s]\<rparr>"
    have core1: "wp_core sendNotification m subscriptions ?s1"
      using "1.prems" True unfolding wp_core_def
      by (auto simp: settled_snoc_Queued nth_append less_Suc_eq)
    show ?thesis
    proof (cases "length (wp_tasks ?s1) = maxConcurrentSends")
      case full: True
      have "wp_loop (Some m) s = ?s1\<lparr>wp_pc := AwaitBatch\<rparr>"
        using True pm full by (subst wp_loop.simps) (simp add: Let_def)
      moreover have "wp_core sendNotification m subscriptions (?s1\<lparr>wp_pc := AwaitBatch\<rparr>)"
        using core1 by (simp add: wp_core_def)
      ultimately show ?thesis
        using "1.prems"(2) by (simp add: wp_inv_def)
    next
      case False
      let ?s2 = "?s1\<lparr>wp_i := wp_i s + 1\<rparr>"
      have eq: "wp_loop (Some m) s = wp_loop (Some m) ?s2"
        using True pm False by (subst wp_loop.simps) (simp add: Let_def)
      have "wp_core sendNotification m subscriptions ?s2"
        using core1 by (simp add: wp_core_def)
      moreover have "wp_i ?s2 = length (wp_units ?s2)"
        using "1.prems"(2) by simp
      moreover have "length (wp_tasks ?s2) < maxConcurrentSends"
        using "1.prems"(3) False by simp
      ultimately have "wp_inv sendNotification m subscriptions (wp_loop (Some m) ?s2)"
        using "1.hyps" [OF True pm refl False] by simp
      with eq show ?thesis by simp
    qed
  next
    case False
    with "1.prems" subs have len: "length (wp_units s) = length subscriptions"
      by (simp add: wp_core_def)
    show ?thesis
    proof (cases "0 < length (wp_tasks s)")
      case True
      have "wp_loop (Some m) s = s\<lparr>wp_pc := AwaitRemaining\<rparr>"
        using False True by (subst wp_loop.simps) simp
      moreover have "wp_core sendNotification m subscriptions (s\<lparr>wp_pc := AwaitRemaining\<rparr>)"
        using "1.prems"(1) by (simp add: wp_core_def)
      ultimately show ?thesis using len by (simp add: wp_inv_def)
    next
      case empty: False
      have "wp_loop (Some m) s = s\<lparr>wp_pc := Returned\<rparr>"
        using False empty by (subst wp_loop.simps) simp
      moreover have "wp_core sendNotification m subscriptions (s\<lparr>wp_pc := Returned\<rparr>)"
        using "1.prems"(1) by (simp add: wp_core_def)
      moreover have "\<forall>t < length subscriptions. wp_units s ! t = Settled"
        using "1.prems"(1) empty len by (simp add: wp_core_def)
      ultimately show ?thesis using len by (simp add: wp_inv_def)
    qed
  qed
qed

lemma admit_Some:
  "admit units = Some units' \<Longrightarrow>
   length units' = length units \<and> (\<forall>t < length units. units' ! t = Settled \<longleftrightarrow> units ! t = Settled)"
proof (induction units arbitrary: units')
  case Nil
  then show ?case by simp
next
  case (Cons u units)
  show ?case
  proof (cases "u = Queued")
    case True
    with Cons.prems show ?thesis
      by (auto simp: nth_Cons split: nat.splits)
  next
    case False
    with Cons.prems obtain rest where rest: "admit units = Some rest" and units': "units' = u # rest"
      by (cases u) auto
    from Cons.IH [OF rest] show ?thesis
      unfolding units' by (auto simp: nth_Cons split: nat.splits)
  qed
qed

lemma admit_settled: "admit units = Some units' \<Longrightarrow> settled units' = settled units"
  by (auto simp: settled_def fun_eq_iff dest: admit_Some)

lemma settled_update:
  "t < length units \<Longrightarrow> {x. settled (units[t := Settled]) x} = insert t {x. settled units x}"
  by (auto simp: settled_def nth_list_update)

lemma finite_settled: "finite {x. settled units x}"
  by (rule finite_subset [of _ "{..<length units}"]) (auto simp: settled_def)

lemma wp_core_settle:
  assumes core: "wp_core sendNotification m subscriptions s"
    and t: "t < length (wp_units s)" "wp_units s ! t = Running"
  shows "wp_core sendNotification m subscriptions
     (settle t (wp_completion sendNotification m subscriptions t) s)"
proof -
  let ?c = "wp_completion sendNotification m subscriptions t"
  let ?f = "\<lambda>t. wp_recorded (wp_completion sendNotification m subscriptions t)"
  let ?s' = "settle t ?c s"
  have units: "wp_units ?s' = (wp_units s)[t := Settled]" and tasks: "wp_tasks ?s' = wp_tasks s"
    and subs: "wp_subscriptions ?s' = wp_subscriptions s"
    and res: "mset (wp_results ?s') = mset (wp_results s) + wp_recorded ?c"
    by (auto simp: settle_def wp_recorded_def split: sum.splits)
  have "\<not> settled (wp_units s) t" using t(2) by (simp add: settled_def)
  then have "(\<Sum>x | settled (wp_units ?s') x. ?f x) = ?f t + (\<Sum>x | settled (wp_units s) x. ?f x)"
    unfolding units settled_update [OF t(1)]
    by (simp add: finite_settled)
  with core res have "mset (wp_results ?s') = (\<Sum>x | settled (wp_units ?s') x. ?f x)"
    by (simp add: wp_core_def)
  moreover have "\<forall>x < length (wp_units ?s'). x \<notin> set (wp_tasks ?s') \<longrightarrow> wp_units ?s' ! x = Settled"
    using core t(1) unfolding units tasks by (auto simp: wp_core_def nth_list_update)
  ultimately show ?thesis
    using core unfolding wp_core_def units tasks subs by simp
qed

lemma wp_step_Settle:
  assumes "wp_subscriptions s = subscriptions"
    and "wp_step sendNotification (Some m) (Settle t) s = Some s'"
  shows "t < length (wp_units s) \<and> wp_units s ! t = Running
    \<and> s' = settle t (wp_completion sendNotification m subscriptions t) s"
  using assms
  by (auto simp: wp_completion_def wp_outcome_def pushMeta_at_def Let_def split: if_splits)

lemma wp_inv_step:
  assumes inv: "wp_inv sendNotification m subscriptions s"
    and step: "wp_step sendNotification (Some m) e s = Some s'"
  shows "wp_inv sendNotification m subscriptions s'"
proof -
  from inv have core: "wp_core sendNotification m subscriptions s"
    by (simp add: wp_inv_def)
  then have subs: "wp_subscriptions s = subscriptions" by (simp add: wp_core_def)
  show ?thesis
  proof (cases e)
    case Admit
    with step obtain units where a: "admit (wp_units s) = Some units" and s': "s' = s\<lparr>wp_units := units\<rparr>"
      by auto
    from admit_Some [OF a] admit_settled [OF a] core
    have "wp_core sendNotification m subscriptions s'"
      unfolding s' wp_core_def by simp
    moreover have "wp_pc s' = wp_pc s" "wp_i s' = wp_i s" by (simp_all add: s')
    ultimately show ?thesis
      using inv admit_Some [OF a] unfolding wp_inv_def s' by (auto split: send_pc.splits)
  next
    case (Settle t)
    with wp_step_Settle [OF subs] step have t: "t < length (wp_units s)" "wp_units s ! t = Running"
      and s': "s' = settle t (wp_completion sendNotification m subscriptions t) s"
      by blast+
    have core': "wp_core sendNotification m subscriptions s'"
      unfolding s' by (rule wp_core_settle [OF core t])
    have same: "wp_pc s' = wp_pc s" "wp_i s' = wp_i s" "length (wp_units s') = length (wp_units s)"
      "\<And>x. wp_units s ! x = Settled \<Longrightarrow> x < length (wp_units s) \<Longrightarrow> wp_units s' ! x = Settled"
      unfolding s' using t(1) by (auto simp: settle_def nth_list_update split: sum.splits)
    from inv core' same show ?thesis
      unfolding wp_inv_def by (auto split: send_pc.splits)
  next
    case Resume
    from core have all: "list_all (settled (wp_units s)) (wp_tasks s) \<Longrightarrow>
        \<forall>t < length (wp_units s). wp_units s ! t = Settled"
      unfolding wp_core_def list_all_iff settled_def by blast
    show ?thesis
    proof (cases "wp_pc s")
      case AwaitBatch
      with step Resume have fin: "list_all (settled (wp_units s)) (wp_tasks s)"
        and s': "s' = wp_loop (Some m) (s\<lparr>wp_pc := InLoop, wp_tasks := [], wp_i := wp_i s + 1\<rparr>)"
        by (auto split: if_splits)
      let ?s0 = "s\<lparr>wp_pc := InLoop, wp_tasks := [], wp_i := wp_i s + 1\<rparr>"
      have "wp_core sendNotification m subscriptions ?s0"
        using core all [OF fin] by (simp add: wp_core_def)
      moreover have "wp_i ?s0 = length (wp_units ?s0)"
        using inv AwaitBatch by (simp add: wp_inv_def)
      moreover have "length (wp_tasks ?s0) < maxConcurrentSends"
        by (simp add: maxConcurrentSends_def)
      ultimately show ?thesis unfolding s' by (rule wp_loop_inv)
    next
      case AwaitRemaining
      with step Resume have fin: "list_all (settled (wp_units s)) (wp_tasks s)"
        and s': "s' = s\<lparr>wp_pc := Returned\<rparr>"
        by (auto split: if_splits)
      have "wp_core sendNotification m subscriptions s'"
        using core by (simp add: wp_core_def s')
      then show ?thesis
        using inv AwaitRemaining all [OF fin] by (simp add: wp_inv_def s')
    qed (use step Resume in auto)
  qed
qed

lemma wp_inv_start:
  assumes "parse_subscriptions userIds = Inr subscriptions"
  shows "wp_inv sendNotification m subscriptions (WebPushNotifier_send userIds (Some m))"
proof -
  let ?s0 = "\<lparr>wp_pc = InLoop, wp_subscriptions = subscriptions, wp_i = 0, wp_tasks = [],
              wp_units = [], wp_results = []\<rparr> :: 'a wp_state"
  have "wp_core sendNotification m subscriptions ?s0"
    by (simp add: wp_core_def settled_def)
  then have "wp_inv sendNotification m subscriptions (wp_loop (Some m) ?s0)"
    by (rule wp_loop_inv) (simp_all add: maxConcurrentSends_def)
  then show ?thesis using assms by (simp add: WebPushNotifier_send_def)
qed

lemma wp_inv_run:
  assumes "parse_subscriptions userIds = Inr subscriptions"
    and "run (wp_step sendNotification (Some m)) es (WebPushNotifier_send userIds (Some m)) = Some s"
  shows "wp_inv sendNotification m subscriptions s"
  using assms(2) wp_inv_start [OF assms(1)]
  by (rule run_invariant) (rule wp_inv_step)

lemma parse_subscriptions_length:
  "parse_subscriptions userIds = Inr subscriptions \<Longrightarrow> length subscriptions = length userIds"
  by (induction userIds arbitrary: subscriptions) (auto split: sum.splits)

lemma parse_subscriptions_Inl:
  "(\<exists>thrown. parse_subscriptions userIds = Inl thrown) \<longleftrightarrow> (\<exists>userId \<in> set userIds. \<exists>thrown. JSON_parse userId = Inl thrown)"
  by (induction userIds) (auto split: sum.splits)

lemma JSON_parse_throws: "JSON_parse text = Inl thrown \<Longrightarrow> thrown = SyntaxError"
  by (auto simp: JSON_parse_def split: option.splits prod.splits if_splits)

lemma parse_subscriptions_throws: "parse_subscriptions userIds = Inl thrown \<Longrightarrow> thrown = SyntaxError"
  by (induction userIds) (auto split: sum.splits dest: JSON_parse_throws)




lemma wp_unit_not_printable:
  "\<not> endpoint_printable subscription \<Longrightarrow> wp_unit subscription outcome = Inl TypeError"
  by (cases outcome; cases "endpoint_template subscription")
    (auto simp: wp_unit_def endpoint_printable_def endpoint_template_def endpoint_def
      split: if_splits option.splits sum.splits)



section \<open>WebPushNotifier: every run can be continued until send returns\<close>

lemma wp_loop_measure:
  "wp_measure (wp_loop (Some m) s)
     < sum_list (map weight (wp_units s)) + 3 * (length (wp_subscriptions s) - wp_i s) + 4"
proof (induction "Some m" s rule: wp_loop.induct)
  case (1 s)
  show ?case
  proof (cases "wp_i s < length (wp_subscriptions s)")
    case True
    have pm: "pushMeta_at (Some m) (wp_i s) = Inr (pushMeta_of m (wp_i s))"
      by (simp add: pushMeta_at_def)
    let ?s1 = "s\<lparr>wp_units := wp_units s @ [Queued], wp_tasks := wp_tasks s @ [wp_i s]\<rparr>"
    show ?thesis
    proof (cases "length (wp_tasks ?s1) = maxConcurrentSends")
      case full: True
      have "wp_loop (Some m) s = ?s1\<lparr>wp_pc := AwaitBatch\<rparr>"
        using True pm full by (subst wp_loop.simps) (simp add: Let_def)
      then show ?thesis by (simp add: wp_measure_def)
    next
      case False
      let ?s2 = "?s1\<lparr>wp_i := wp_i s + 1\<rparr>"
      have eq: "wp_loop (Some m) s = wp_loop (Some m) ?s2"
        using True pm False by (subst wp_loop.simps) (simp add: Let_def)
      from "1.hyps" [OF True pm refl False] True show ?thesis
        unfolding eq by simp
    qed
  next
    case False
    then have "wp_loop (Some m) s = s\<lparr>wp_pc := AwaitRemaining\<rparr> \<or> wp_loop (Some m) s = s\<lparr>wp_pc := Returned\<rparr>"
      by (subst wp_loop.simps, subst (2) wp_loop.simps) simp
    then show ?thesis by (auto simp: wp_measure_def)
  qed
qed

lemma admit_weight:
  "Queued \<in> set units \<Longrightarrow>
   \<exists>units'. admit units = Some units' \<and> Suc (sum_list (map weight units')) = sum_list (map weight units)"
proof (induction units)
  case Nil
  then show ?case by simp
next
  case (Cons u units)
  show ?case
  proof (cases "u = Queued")
    case True
    then show ?thesis by simp
  next
    case False
    with Cons.prems have "Queued \<in> set units" by simp
    from Cons.IH [OF this] obtain rest where
      "admit units = Some rest" "Suc (sum_list (map weight rest)) = sum_list (map weight units)"
      by blast
    with False show ?thesis by (cases u) auto
  qed
qed

lemma settle_weight:
  assumes "t < length units" and "units ! t = Running"
  shows "Suc (sum_list (map weight (units[t := Settled]))) = sum_list (map weight units)"
proof -
  have "sum_list ((map weight units)[t := weight Settled])
      = sum_list (map weight units) + weight Settled - map weight units ! t"
    using assms(1) by (intro sum_list_update) simp
  moreover have "0 < sum_list (map weight units)"
  proof -
    have "weight (units ! t) \<in> set (map weight units)"
      using assms(1) by simp
    then have "weight (units ! t) \<le> sum_list (map weight units)"
      by (rule member_le_sum_list) simp
    then show ?thesis using assms(2) by simp
  qed
  ultimately show ?thesis
    using assms by (simp add: map_update)
qed

lemma wp_progress:
  assumes inv: "wp_inv sendNotification m subscriptions s" and pc: "wp_pc s \<noteq> Returned"
  shows "\<exists>e s'. wp_step sendNotification (Some m) e s = Some s' \<and> wp_measure s' < wp_measure s"
proof -
  from inv have core: "wp_core sendNotification m subscriptions s"
    by (simp add: wp_inv_def)
  then have subs: "wp_subscriptions s = subscriptions"
    and len: "length (wp_units s) \<le> length subscriptions"
    by (simp_all add: wp_core_def)
  consider (queued) "Queued \<in> set (wp_units s)"
    | (running) "Queued \<notin> set (wp_units s)" "Running \<in> set (wp_units s)"
    | (idle) "\<forall>u \<in> set (wp_units s). u = Settled"
    by (metis unit_state.exhaust)
  then show ?thesis
  proof cases
    case queued
    from admit_weight [OF this] obtain units' where
      a: "admit (wp_units s) = Some units'"
      and w: "Suc (sum_list (map weight units')) = sum_list (map weight (wp_units s))"
      by blast
    have "wp_step sendNotification (Some m) Admit s = Some (s\<lparr>wp_units := units'\<rparr>)"
      using a by simp
    moreover have "wp_measure (s\<lparr>wp_units := units'\<rparr>) < wp_measure s"
      using w by (simp add: wp_measure_def)
    ultimately show ?thesis by blast
  next
    case running
    then obtain t where t: "t < length (wp_units s)" "wp_units s ! t = Running"
      by (auto simp: in_set_conv_nth)
    let ?s' = "settle t (wp_completion sendNotification m subscriptions t) s"
    have "wp_step sendNotification (Some m) (Settle t) s = Some ?s'"
      using t len by (simp add: subs wp_completion_def wp_outcome_def pushMeta_at_def Let_def)
    moreover have "wp_units ?s' = (wp_units s)[t := Settled]" "wp_pc ?s' = wp_pc s" "wp_i ?s' = wp_i s"
      "wp_subscriptions ?s' = wp_subscriptions s"
      by (auto simp: settle_def split: sum.splits)
    then have "wp_measure ?s' < wp_measure s"
      using settle_weight [OF t] by (simp add: wp_measure_def)
    ultimately show ?thesis by blast
  next
    case idle
    then have zero: "sum_list (map weight (wp_units s)) = 0"
      by (auto simp: sum_list_eq_0_iff)
    from idle core have all: "list_all (settled (wp_units s)) (wp_tasks s)"
      by (auto simp: wp_core_def list_all_iff settled_def)
    from inv pc consider (batch) "wp_pc s = AwaitBatch" | (rest) "wp_pc s = AwaitRemaining"
      by (auto simp: wp_inv_def split: send_pc.splits)
    then show ?thesis
    proof cases
      case batch
      let ?s0 = "s\<lparr>wp_pc := InLoop, wp_tasks := [], wp_i := wp_i s + 1\<rparr>"
      have "wp_step sendNotification (Some m) Resume s = Some (wp_loop (Some m) ?s0)"
        using batch all by simp
      moreover have "wp_i s < length (wp_subscriptions s)"
        using inv batch len subs by (simp add: wp_inv_def)
      then have "wp_measure (wp_loop (Some m) ?s0) < wp_measure s"
        using wp_loop_measure [of m ?s0] zero batch by (simp add: wp_measure_def)
      ultimately show ?thesis by blast
    next
      case rest
      have "wp_step sendNotification (Some m) Resume s = Some (s\<lparr>wp_pc := Returned\<rparr>)"
        using rest all by simp
      moreover have "wp_measure (s\<lparr>wp_pc := Returned\<rparr>) < wp_measure s"
        using rest by (simp add: wp_measure_def)
      ultimately show ?thesis by blast
    qed
  qed
qed

lemma wp_can_return:
  "wp_inv sendNotification m subscriptions s \<Longrightarrow>
   \<exists>es s'. run (wp_step sendNotification (Some m)) es s = Some s' \<and> wp_pc s' = Returned"
proof (induction "wp_measure s" arbitrary: s rule: less_induct)
  case less
  show ?case
  proof (cases "wp_pc s = Returned")
    case True
    then have "run (wp_step sendNotification (Some m)) [] s = Some s \<and> wp_pc s = Returned" by simp
    then show ?thesis by blast
  next
    case False
    from wp_progress [OF less.prems False] obtain e t where
      e: "wp_step sendNotification (Some m) e s = Some t" and lt: "wp_measure t < wp_measure s"
      by blast
    from wp_inv_step [OF less.prems e] have "wp_inv sendNotification m subscriptions t" .
    from less.hyps [OF lt this] obtain es s' where
      "run (wp_step sendNotification (Some m)) es t = Some s'" "wp_pc s' = Returned"
      by blast
    with e have "run (wp_step sendNotification (Some m)) (e # es) s = Some s' \<and> wp_pc s' = Returned"
      by simp
    then show ?thesis by blast
  qed
qed

section \<open>Properties of the registry\<close>

lemma registry_after_dom:
  "dom (registry_after calls registry) = set (registered_since_clear calls ns)"
  if "dom registry = set ns"
  using that
proof (induction calls arbitrary: registry ns)
  case Nil
  then show ?case by simp
next
  case (Cons c calls)
  show ?case
  proof (cases c)
    case (Register name channel)
    have "dom (NotifierRegistry_register name channel registry) = set (name # ns)"
      using Cons.prems by (simp add: NotifierRegistry_register_def)
    from Cons.IH [OF this] show ?thesis using Register by simp
  next
    case Clear
    have "dom (NotifierRegistry_clear registry :: 'a registry) = set ([] :: string list)"
      by (simp add: NotifierRegistry_clear_def)
    from Cons.IH [OF this] show ?thesis using Clear by simp
  qed
qed

lemma get_unregistered:
  "registry name = None \<Longrightarrow>
   NotifierRegistry_get name registry = Inl (''Notifier for '' @ name @ '' not registered'')"
  by (simp add: NotifierRegistry_get_def)

lemma not_registered_message_has_name:
  "sublist name (''Notifier for '' @ name @ '' not registered'')"
  by (rule sublist_appendI)

text \<open>
  C9. Registering \<open>x\<close> twice, first with channel \<open>A\<close> and then with channel \<open>B\<close>, makes
  \<open>get x\<close> return \<open>B\<close> (and so not \<open>A\<close> when the two differ). After any sequence of
  \<open>register\<close> and \<open>clear\<close> calls on the initially empty registry, a name that was not
  registered since the last \<open>clear\<close> makes \<open>get\<close> fail with the not-registered error, and
  the requested name occurs in the error's message; the same holds right after \<open>clear\<close>.
\<close>

theorem registry_overwrite_and_missing:
  fixes registry :: "'c registry"
  shows "NotifierRegistry_get x (NotifierRegistry_register x B (NotifierRegistry_register x A registry)) = Inr B
    \<and> (A \<noteq> B \<longrightarrow>
         NotifierRegistry_get x (NotifierRegistry_register x B (NotifierRegistry_register x A registry)) \<noteq> Inr A)
    \<and> (name \<notin> set (registered_since_clear calls []) \<longrightarrow>
         (\<exists>msg. NotifierRegistry_get name (registry_after calls (Map.empty :: 'c registry)) = Inl msg
            \<and> sublist name msg))
    \<and> (\<exists>msg. NotifierRegistry_get name (NotifierRegistry_clear registry) = Inl msg \<and> sublist name msg)"
proof (intro conjI impI)
  show b: "NotifierRegistry_get x (NotifierRegistry_register x B (NotifierRegistry_register x A registry)) = Inr B"
    by (simp add: NotifierRegistry_get_def NotifierRegistry_register_def)
  show "NotifierRegistry_get x (NotifierRegistry_register x B (NotifierRegistry_register x A registry)) \<noteq> Inr A"
    if "A \<noteq> B"
    using that b by simp
  show "\<exists>msg. NotifierRegistry_get name (registry_after calls (Map.empty :: 'c registry)) = Inl msg
            \<and> sublist name msg"
    if "name \<notin> set (registered_since_clear calls [])"
  proof -
    have "dom (registry_after calls (Map.empty :: 'c registry)) = set (registered_since_clear calls [])"
      by (rule registry_after_dom) simp
    with that have "registry_after calls (Map.empty :: 'c registry) name = None"
      by (auto simp: dom_def)
    then have "NotifierRegistry_get name (registry_after calls (Map.empty :: 'c registry))
        = Inl (''Notifier for '' @ name @ '' not registered'')"
      by (rule get_unregistered)
    then show ?thesis
      using not_registered_message_has_name [of name] by simp
  qed
  have "NotifierRegistry_get name (NotifierRegistry_clear registry)
        = Inl (''Notifier for '' @ name @ '' not registered'')"
    by (rule get_unregistered) (simp add: NotifierRegistry_clear_def)
  then show "\<exists>msg. NotifierRegistry_get name (NotifierRegistry_clear registry) = Inl msg \<and> sublist name msg"
    using not_registered_message_has_name [of name] by simp
qed

theorem registry_overwrite_and_missing_witness:
  "NotifierRegistry_get ''dummy''
     (NotifierRegistry_register ''dummy'' (2::nat) (NotifierRegistry_register ''dummy'' 1 Map.empty)) = Inr 2
   \<and> (1::nat) \<noteq> 2
   \<and> NotifierRegistry_get ''dummy''
     (NotifierRegistry_register ''dummy'' (2::nat) (NotifierRegistry_register ''dummy'' 1 Map.empty)) \<noteq> Inr 1
   \<and> ''missing'' \<notin> set (registered_since_clear [Register ''gone'' (1::nat), Clear, Register ''dummy'' 2] [])
   \<and> (\<exists>msg. NotifierRegistry_get ''missing''
            (registry_after [Register ''gone'' (1::nat), Clear, Register ''dummy'' 2] Map.empty) = Inl msg
          \<and> sublist ''missing'' msg)"
  using registry_overwrite_and_missing [of "''dummy''" "2::nat" 1 Map.empty "''missing''"
      "[Register ''gone'' (1::nat), Clear, Register ''dummy'' 2]"]
  by simp

section \<open>Properties of FirebaseNotifier.send\<close>

lemma fb_pending_in_chunk:
  assumes ch: "chunkArray userIds 500 = Some chunks"
    and inv: "fb_inv messaging_send meta chunks s"
  shows "set (fb_pending s) \<subseteq> set (enumerate 0 (fb_tokens s)) \<and> length (fb_pending s) \<le> 500"
proof (cases "fb_pc s = AwaitChunk")
  case True
  with inv obtain D where D: "drop (fb_chunk_no s) chunks = fb_tokens s # fb_rest s"
    "mset D + mset (fb_pending s) = mset (enumerate 0 (fb_tokens s))"
    unfolding fb_inv_def by auto
  from D(2) have sub: "mset (fb_pending s) \<subseteq># mset (enumerate 0 (fb_tokens s))"
    by (metis mset_subset_eq_add_right)
  then have "set (fb_pending s) \<subseteq> set (enumerate 0 (fb_tokens s))"
    using set_mset_mono by fastforce
  moreover from sub have "length (fb_pending s) \<le> length (fb_tokens s)"
    using size_mset_mono by fastforce
  moreover have "fb_tokens s \<in> set chunks"
    using D(1) by (metis in_set_dropD list.set_intros(1))
  then have "length (fb_tokens s) \<le> 500"
    using chunkArray_Some [of 500 userIds] ch by auto
  ultimately show ?thesis by simp
next
  case False
  with inv have "fb_pending s = []"
    unfolding fb_inv_def by (cases "fb_pc s") auto
  then show ?thesis by simp
qed

text \<open>
  C10. \<open>send\<close> processes the chunks strictly one after the other. In every state a run of
  \<open>send\<close> reaches, the pending transport calls are calls of the chunk the loop is at, and there
  are at most 500 of them. Whenever the unit of a chunk has been handed to the rate limiter and not
  yet been admitted, no call is pending and \<open>results\<close> holds the results of all earlier chunks,
  chunk by chunk. When \<open>send\<close> has returned, \<open>results\<close> is ordered by chunk, each chunk's
  results in some order.
\<close>

theorem fb_chunks_strictly_sequential:
  assumes "chunkArray userIds 500 = Some chunks"
    and "run (fb_step messaging_send meta) es (FirebaseNotifier_send userIds) = Some s"
  shows "set (fb_pending s) \<subseteq> set (enumerate 0 (fb_tokens s)) \<and> length (fb_pending s) \<le> 500
    \<and> (fb_pc s \<noteq> Returned \<longrightarrow> fb_chunk_no s < length chunks \<and> fb_tokens s = chunks ! fb_chunk_no s)
    \<and> (fb_pc s = AwaitSchedule \<longrightarrow> fb_pending s = []
          \<and> by_chunk messaging_send meta (fb_results s) (enumerate 0 (take (fb_chunk_no s) chunks)))
    \<and> (fb_pc s = Returned \<longrightarrow> by_chunk messaging_send meta (fb_results s) (enumerate 0 chunks))"
proof -
  from fb_inv_run [OF assms] have inv: "fb_inv messaging_send meta chunks s" .
  then obtain Rs where Rs:
    "list_all2 (chunk_perm messaging_send meta) Rs (enumerate 0 (take (fb_chunk_no s) chunks))"
    and pc: "case fb_pc s of
              Returned \<Rightarrow> fb_chunk_no s = length chunks \<and> fb_results s = concat Rs \<and> fb_pending s = []
            | AwaitSchedule \<Rightarrow> drop (fb_chunk_no s) chunks = fb_tokens s # fb_rest s
                \<and> fb_results s = concat Rs \<and> fb_pending s = []
            | AwaitChunk \<Rightarrow> drop (fb_chunk_no s) chunks = fb_tokens s # fb_rest s
                \<and> (\<exists>D. fb_results s = concat Rs @ map (fb_callback messaging_send meta (fb_chunk_no s)) D
                      \<and> mset D + mset (fb_pending s) = mset (enumerate 0 (fb_tokens s)))
            | _ \<Rightarrow> False"
    unfolding fb_inv_def by blast
  have "fb_chunk_no s < length chunks \<and> fb_tokens s = chunks ! fb_chunk_no s" if "fb_pc s \<noteq> Returned"
  proof -
    from pc that have d: "drop (fb_chunk_no s) chunks = fb_tokens s # fb_rest s"
      by (cases "fb_pc s") auto
    then have "fb_chunk_no s < length chunks"
      by (metis drop_all list.distinct(1) not_le)
    with d show ?thesis by (metis nth_via_drop)
  qed
  moreover have "fb_pending s = []
      \<and> by_chunk messaging_send meta (fb_results s) (enumerate 0 (take (fb_chunk_no s) chunks))"
    if "fb_pc s = AwaitSchedule"
    using pc that all_chunk_perm_by_chunk [OF Rs] by simp
  moreover have "by_chunk messaging_send meta (fb_results s) (enumerate 0 chunks)" if "fb_pc s = Returned"
    using pc that all_chunk_perm_by_chunk [OF Rs] by simp
  ultimately show ?thesis
    using fb_pending_in_chunk [OF assms(1) inv] by blast
qed

text \<open>
  The entry of \<open>meta\<close> that the callback reads is the one at the index of the recipient within
  its chunk: for the recipient at position \<open>g\<close> of \<open>userIds\<close> that is entry \<open>g mod 500\<close>.
\<close>

lemma fb_dispatch_reads_chunk_index:
  "fb_outcome_at messaging_send meta userIds g =
     messaging_send g (fb_message (userIds ! g) (userMeta_at meta (g mod 500)))
       (fb_dryRun (userMeta_at meta (g mod 500)))"
  by (simp add: fb_outcome_at_def fb_outcome_def Let_def)

lemma chunkArray_501:
  "chunkArray (replicate 500 a @ [z]) 500 = Some [replicate 500 a, [z]]"
  unfolding chunkArray_def
  apply (subst chunkArray_from.simps, simp add: slice_def)
  apply (subst chunkArray_from.simps, simp add: slice_def)
  apply (subst chunkArray_from.simps, simp add: slice_def)
  done

text \<open>
  The runs of a call with 501 recipients, \<open>a\<close> 500 times and then \<open>z\<close>, that stop at the
  four places named below: inside the first chunk, between the chunks, inside the second chunk,
  and returned.
\<close>

lemma fb_two_chunk_runs:
  fixes messaging_send meta
  defines "results0 \<equiv> fb_chunk_results messaging_send meta (0, replicate 500 ''a'')"
  shows "run (fb_step messaging_send meta) [Admit, Settle 0] (FirebaseNotifier_send (replicate 500 ''a'' @ [''z'']))
      = Some \<lparr>fb_pc = AwaitChunk, fb_rest = [[''z'']], fb_chunk_no = 0, fb_tokens = replicate 500 ''a'',
          fb_pending = enumerate 1 (replicate 499 ''a''),
          fb_results = [fb_callback messaging_send meta 0 (0, ''a'')]\<rparr>"
    and "run (fb_step messaging_send meta) (Admit # map Settle [0..<500] @ [Resume])
        (FirebaseNotifier_send (replicate 500 ''a'' @ [''z'']))
      = Some \<lparr>fb_pc = AwaitSchedule, fb_rest = [], fb_chunk_no = 1, fb_tokens = [''z''],
          fb_pending = [], fb_results = results0\<rparr>"
    and "run (fb_step messaging_send meta) (Admit # map Settle [0..<500] @ [Resume, Admit])
        (FirebaseNotifier_send (replicate 500 ''a'' @ [''z'']))
      = Some \<lparr>fb_pc = AwaitChunk, fb_rest = [], fb_chunk_no = 1, fb_tokens = [''z''],
          fb_pending = [(0, ''z'')], fb_results = results0\<rparr>"
    and "run (fb_step messaging_send meta) (Admit # map Settle [0..<500] @ [Resume, Admit, Settle 0, Resume])
        (FirebaseNotifier_send (replicate 500 ''a'' @ [''z'']))
      = Some \<lparr>fb_pc = Returned, fb_rest = [], fb_chunk_no = 2, fb_tokens = [],
          fb_pending = [], fb_results = results0 @ [fb_callback messaging_send meta 1 (0, ''z'')]\<rparr>"
proof -
  let ?s0 = "fb_loop [replicate 500 ''a'', [''z'']] 0 []"
  let ?s1 = "\<lparr>fb_pc = AwaitSchedule, fb_rest = [], fb_chunk_no = 1, fb_tokens = [''z''],
      fb_pending = [], fb_results = results0\<rparr>"
  have start: "FirebaseNotifier_send (replicate 500 ''a'' @ [''z'']) = ?s0"
    by (simp add: FirebaseNotifier_send_def chunkArray_501)
  have r: "replicate 500 ''a'' = ''a'' # replicate 499 ''a''"
    by (simp flip: replicate_Suc)
  show "run (fb_step messaging_send meta) [Admit, Settle 0] (FirebaseNotifier_send (replicate 500 ''a'' @ [''z'']))
      = Some \<lparr>fb_pc = AwaitChunk, fb_rest = [[''z'']], fb_chunk_no = 0, fb_tokens = replicate 500 ''a'',
          fb_pending = enumerate 1 (replicate 499 ''a''),
          fb_results = [fb_callback messaging_send meta 0 (0, ''a'')]\<rparr>"
    unfolding start by (simp add: fb_loop_def) (simp add: r)
  have pc: "fb_pc ?s0 = AwaitSchedule"
    by (simp add: fb_loop_def)
  from fb_chunk_run [OF pc, of messaging_send meta]
  show first: "run (fb_step messaging_send meta) (Admit # map Settle [0..<500] @ [Resume])
        (FirebaseNotifier_send (replicate 500 ''a'' @ [''z''])) = Some ?s1"
    unfolding start by (simp add: fb_loop_def results0_def)
  have split: "Admit # map Settle [0..<500] @ [Resume, Admit] = (Admit # map Settle [0..<500] @ [Resume]) @ [Admit]"
    "Admit # map Settle [0..<500] @ [Resume, Admit, Settle 0, Resume]
      = (Admit # map Settle [0..<500] @ [Resume]) @ [Admit, Settle 0, Resume]"
    by simp_all
  show "run (fb_step messaging_send meta) (Admit # map Settle [0..<500] @ [Resume, Admit])
        (FirebaseNotifier_send (replicate 500 ''a'' @ [''z'']))
      = Some \<lparr>fb_pc = AwaitChunk, fb_rest = [], fb_chunk_no = 1, fb_tokens = [''z''],
          fb_pending = [(0, ''z'')], fb_results = results0\<rparr>"
    unfolding split run_append first by simp
  show "run (fb_step messaging_send meta) (Admit # map Settle [0..<500] @ [Resume, Admit, Settle 0, Resume])
        (FirebaseNotifier_send (replicate 500 ''a'' @ [''z'']))
      = Some \<lparr>fb_pc = Returned, fb_rest = [], fb_chunk_no = 2, fb_tokens = [],
          fb_pending = [], fb_results = results0 @ [fb_callback messaging_send meta 1 (0, ''z'')]\<rparr>"
    unfolding split run_append first by (simp add: fb_loop_def)
qed

theorem fb_chunks_strictly_sequential_witness:
  "chunkArray (replicate 500 ''a'' @ [''z'']) 500 = Some [replicate 500 ''a'', [''z'']]
   \<and> (\<exists>s. run (fb_step echo_title None) [Admit, Settle 0]
             (FirebaseNotifier_send (replicate 500 ''a'' @ [''z''])) = Some s
          \<and> fb_pc s = AwaitChunk \<and> fb_chunk_no s = 0 \<and> length (fb_pending s) = 499
          \<and> set (fb_pending s) \<subseteq> set (enumerate 0 (replicate 500 ''a''))
          \<and> fb_tokens s = [replicate 500 ''a'', [''z'']] ! 0)
   \<and> (\<exists>s. run (fb_step echo_title None) (Admit # map Settle [0..<500] @ [Resume])
             (FirebaseNotifier_send (replicate 500 ''a'' @ [''z''])) = Some s
          \<and> fb_pc s = AwaitSchedule \<and> fb_chunk_no s = 1 \<and> fb_pending s = []
          \<and> length (fb_results s) = 500
          \<and> by_chunk echo_title None (fb_results s) [(0, replicate 500 ''a'')])
   \<and> (\<exists>s. run (fb_step echo_title None) (Admit # map Settle [0..<500] @ [Resume, Admit])
             (FirebaseNotifier_send (replicate 500 ''a'' @ [''z''])) = Some s
          \<and> fb_pc s = AwaitChunk \<and> fb_chunk_no s = 1 \<and> fb_pending s = [(0, ''z'')]
          \<and> length (fb_results s) = 500
          \<and> set (fb_pending s) \<subseteq> set (enumerate 0 [''z''])
          \<and> fb_tokens s = [replicate 500 ''a'', [''z'']] ! 1)
   \<and> (\<exists>s. run (fb_step echo_title None) (Admit # map Settle [0..<500] @ [Resume, Admit, Settle 0, Resume])
             (FirebaseNotifier_send (replicate 500 ''a'' @ [''z''])) = Some s
          \<and> fb_pc s = Returned \<and> length (fb_results s) = 501
          \<and> by_chunk echo_title None (fb_results s) [(0, replicate 500 ''a''), (1, [''z''])])"
proof -
  note ch = chunkArray_501 [of "''a''" "''z''"]
  note runs = fb_two_chunk_runs [of echo_title None]
  have len: "length (fb_chunk_results echo_title None (0, replicate 500 ''a'')) = 500"
    by (simp add: fb_chunk_results_def)
  have e: "enumerate 0 [replicate 500 ''a'', [''z'']] = [(0, replicate 500 ''a''), (1, [''z''])]"
    by simp
  from fb_chunks_strictly_sequential [OF ch runs(1)] fb_chunks_strictly_sequential [OF ch runs(2)]
    fb_chunks_strictly_sequential [OF ch runs(3)] fb_chunks_strictly_sequential [OF ch runs(4)]
  show ?thesis
    unfolding runs using ch len e by simp
qed

lemma fb_last_of_501:
  "map_option (\<lambda>s. (fb_pc s, length (fb_results s), last (fb_results s)))
     (run (fb_step messaging_send meta) (fb_schedule [replicate 500 a, [z]])
        (FirebaseNotifier_send (replicate 500 a @ [z])))
   = Some (Returned, 501, fb_result_at messaging_send meta (replicate 500 a @ [z]) 500)"
proof -
  have "last (map (fb_result_at messaging_send meta (replicate 500 a @ [z])) [0..<501])
      = fb_result_at messaging_send meta (replicate 500 a @ [z]) 500"
    by (simp add: last_map)
  then show ?thesis
    unfolding fb_returns [OF chunkArray_501] by simp
qed

text \<open>
  C3. The claim: the payload for the recipient at position \<open>i\<close> of the input is built from entry
  \<open>i\<close> of the metadata, also for \<open>i \<ge> 500\<close>. Evaluated on 501 recipients, \<open>a\<close> 500 times and
  then \<open>z\<close>, with 501 metadata entries, titled \<open>A\<close> 500 times and then \<open>Z\<close>, and a
  transport that answers with the title it received: the call returns 501 results, and the
  transport received for \<open>z\<close>, the recipient at position 500, the title \<open>A\<close> of entry 0, not
  the title \<open>Z\<close> of entry 500.
\<close>

theorem fb_metadata_misaligned_beyond_first_chunk:
  "map_option (\<lambda>s. (fb_pc s, length (fb_results s), last (fb_results s)))
     (run (fb_step echo_title (Some (replicate 500 (titled ''A'') @ [titled ''Z''])))
        (fb_schedule [replicate 500 ''a'', [''z'']])
        (FirebaseNotifier_send (replicate 500 ''a'' @ [''z''])))
   = Some (Returned, 501,
       \<lparr>status = ''success'', recipient = ''z'', response = Some ''A'', error = None\<rparr>)"
  unfolding fb_last_of_501
  by (simp add: fb_result_at_def fb_dispatch_reads_chunk_index fb_record_def echo_title_def
      fb_message_def userMeta_at_def titled_def str_or_def nth_append)

text \<open>
  The defaults of the payload: for a recipient whose callback finds no entry, and for each field
  that the entry it finds lacks.
\<close>

lemma fb_defaults:
  "fb_message userId None
     = \<lparr>token = userId, notification_title = ''Default Notification'', notification_body = [],
        message_data = []\<rparr>"
  "fb_dryRun None = False"
  "FirebaseNotificationOptions.title userMeta = None \<Longrightarrow>
     notification_title (fb_message userId (Some userMeta)) = ''Default Notification''"
  "FirebaseNotificationOptions.body userMeta = None \<Longrightarrow>
     notification_body (fb_message userId (Some userMeta)) = []"
  "FirebaseNotificationOptions.data userMeta = None \<Longrightarrow>
     message_data (fb_message userId (Some userMeta)) = []"
  "dryRun userMeta = None \<Longrightarrow> fb_dryRun (Some userMeta) = False"
  by (simp_all add: fb_message_def fb_dryRun_def str_or_def)

text \<open>
  C8. The claim: a recipient whose metadata entry is missing is sent the defaults, the title a
  fixed placeholder. Evaluated on 501 recipients, \<open>a\<close> 500 times and then \<open>z\<close>, with 500
  metadata entries titled \<open>Hi\<close>, and a transport that answers with the title it received:
  there is no entry 500, and the transport received for \<open>z\<close>, the recipient at position 500,
  the title \<open>Hi\<close> of entry 0, not the placeholder \<open>Default Notification\<close>.
\<close>

theorem fb_default_title_missed_beyond_first_chunk:
  "userMeta_at (Some (replicate 500 (titled ''Hi''))) 500 = None
   \<and> notification_title (fb_message ''z'' None) = ''Default Notification''
   \<and> map_option (\<lambda>s. (fb_pc s, length (fb_results s), last (fb_results s)))
       (run (fb_step echo_title (Some (replicate 500 (titled ''Hi''))))
          (fb_schedule [replicate 500 ''a'', [''z'']])
          (FirebaseNotifier_send (replicate 500 ''a'' @ [''z''])))
     = Some (Returned, 501,
         \<lparr>status = ''success'', recipient = ''z'', response = Some ''Hi'', error = None\<rparr>)"
  unfolding fb_last_of_501
  by (simp add: fb_result_at_def fb_dispatch_reads_chunk_index fb_record_def echo_title_def
      fb_message_def userMeta_at_def titled_def str_or_def nth_append)

section \<open>Properties of both adapters\<close>



lemma fb_never_raises:
  assumes "run (fb_step messaging_send meta) es (FirebaseNotifier_send userIds) = Some s"
  shows "fb_pc s = AwaitSchedule \<or> fb_pc s = AwaitChunk \<or> fb_pc s = Returned"
proof -
  obtain chunks where ch: "chunkArray userIds 500 = Some chunks"
    using chunkArray_Some [of 500 userIds] by auto
  from fb_inv_run [OF ch assms] show ?thesis
    unfolding fb_inv_def by (cases "fb_pc s") auto
qed

lemma wp_never_raises:
  assumes "wp_inv sendNotification m subscriptions s"
  shows "wp_pc s = AwaitBatch \<or> wp_pc s = AwaitRemaining \<or> wp_pc s = Returned"
  using assms unfolding wp_inv_def by (cases "wp_pc s") auto






text \<open>
  A subscription whose endpoint has no string conversion records nothing either: for the
  identifier \<open>{"endpoint":{"toString":1}}\<close> the delivery succeeds, both template literals of
  the unit throw, and the call returns an empty result list. (Were the limiter's handle to
  reject with its unit, the call would raise that \<open>TypeError\<close> instead; it has no result for
  the recipient either way.) This is why the properties of \<open>WebPushNotifier.send\<close> ask for
  more than a subscription other than \<open>null\<close>.
\<close>

lemma wp_unprintable_endpoint_records_nothing:
  "JSON_parse ''{\"endpoint\":{\"toString\":1}}''
     = Inr (JObject [(''endpoint'', JObject [(''toString'', JNumber ''1'')])])
   \<and> \<not> endpoint_printable (JObject [(''endpoint'', JObject [(''toString'', JNumber ''1'')])])
   \<and> map_option (\<lambda>s. (wp_pc s, wp_units s, wp_results s))
       (run (wp_step delivered (Some [])) [Admit, Settle 0, Resume]
          (WebPushNotifier_send [''{\"endpoint\":{\"toString\":1}}''] (Some [])))
     = Some (Returned, [Settled], [])"
  by code_simp




section \<open>Properties of WebPushNotifier.send\<close>

text \<open>
  C4, as amended. When some recipient identifier fails to decode (\<open>JSON.parse\<close> throws on
  it), \<open>WebPushNotifier.send\<close> raises the \<open>SyntaxError\<close> as a request-level error before it
  schedules anything: no recipient is dispatched, no result is recorded, and no event can follow.
\<close>

theorem undecodable_recipient_fails_the_request:
  "(\<exists>userId \<in> set userIds. JSON_parse userId = Inl SyntaxError) \<longrightarrow>
     WebPushNotifier_send userIds meta
       = \<lparr>wp_pc = Raised SyntaxError, wp_subscriptions = [], wp_i = 0, wp_tasks = [], wp_units = [],
          wp_results = []\<rparr>
     \<and> wp_step sendNotification meta e (WebPushNotifier_send userIds meta) = None"
proof
  assume "\<exists>userId \<in> set userIds. JSON_parse userId = Inl SyntaxError"
  then have "\<exists>thrown. parse_subscriptions userIds = Inl thrown"
    unfolding parse_subscriptions_Inl by blast
  then have "parse_subscriptions userIds = Inl SyntaxError"
    using parse_subscriptions_throws by blast
  then have raised: "WebPushNotifier_send userIds meta
       = \<lparr>wp_pc = Raised SyntaxError, wp_subscriptions = [], wp_i = 0, wp_tasks = [], wp_units = [],
          wp_results = []\<rparr>"
    by (simp add: WebPushNotifier_send_def)
  have "wp_step sendNotification meta e (WebPushNotifier_send userIds meta) = None"
    unfolding raised by (cases e) simp_all
  with raised show "WebPushNotifier_send userIds meta
       = \<lparr>wp_pc = Raised SyntaxError, wp_subscriptions = [], wp_i = 0, wp_tasks = [], wp_units = [],
          wp_results = []\<rparr>
     \<and> wp_step sendNotification meta e (WebPushNotifier_send userIds meta) = None"
    by simp
qed

theorem undecodable_recipient_fails_the_request_witness:
  "''{endpoint:1}'' \<in> set [''{\"endpoint\":\"https://push.example/a\"}'', ''{endpoint:1}'']
   \<and> JSON_parse ''{endpoint:1}'' = Inl SyntaxError
   \<and> (WebPushNotifier_send [''{\"endpoint\":\"https://push.example/a\"}'', ''{endpoint:1}'']
        (Some [\<lparr>title = Some ''Hello'', body = None, data = None, TTL = None, vapidDetails = None,
                 headers = None\<rparr>]) :: string wp_state)
       = \<lparr>wp_pc = Raised SyntaxError, wp_subscriptions = [], wp_i = 0, wp_tasks = [], wp_units = [],
          wp_results = []\<rparr>
   \<and> wp_step delivered (Some [\<lparr>title = Some ''Hello'', body = None, data = None, TTL = None,
          vapidDetails = None, headers = None\<rparr>]) Admit
        (WebPushNotifier_send [''{\"endpoint\":\"https://push.example/a\"}'', ''{endpoint:1}'']
          (Some [\<lparr>title = Some ''Hello'', body = None, data = None, TTL = None, vapidDetails = None,
                   headers = None\<rparr>])) = None"
proof -
  have j: "JSON_parse ''{endpoint:1}'' = Inl SyntaxError"
    by code_simp
  then have "\<exists>userId \<in> set [''{\"endpoint\":\"https://push.example/a\"}'', ''{endpoint:1}''].
      JSON_parse userId = Inl SyntaxError"
    by simp
  with undecodable_recipient_fails_the_request
    [of "[''{\"endpoint\":\"https://push.example/a\"}'', ''{endpoint:1}'']"
      "Some [\<lparr>title = Some ''Hello'', body = None, data = None, TTL = None, vapidDetails = None,
         headers = None\<rparr>]" delivered Admit]
  show ?thesis using j by simp
qed

text \<open>
  C4, as stated, fails: with a valid subscription followed by a string that is not valid JSON,
  the call does not return a result per recipient with a decoding-error entry; it raises, and the
  valid recipient is not dispatched either (no unit is scheduled).
\<close>

theorem wp_decoding_error_aborts_dispatch:
  "JSON_parse ''{\"endpoint\":\"https://push.example/a\"}''
     = Inr (JObject [(''endpoint'', JString ''https://push.example/a'')])
   \<and> (WebPushNotifier_send [''{\"endpoint\":\"https://push.example/a\"}'', ''not json''] (Some [])
        :: string wp_state)
     = \<lparr>wp_pc = Raised SyntaxError, wp_subscriptions = [], wp_i = 0, wp_tasks = [], wp_units = [],
        wp_results = []\<rparr>"
  by code_simp

text \<open>
  The bound on the concurrency of the current \<open>WebPushNotifier.send\<close>, for a metadata list and
  identifiers that decode: in every state a run reaches, at most \<open>maxConcurrentSends\<close> delivery
  calls are pending, and when the call has returned every unit it scheduled has settled and there
  is one unit per recipient.
\<close>

lemma wp_concurrency_bound:
  assumes "parse_subscriptions userIds = Inr subscriptions"
    and "run (wp_step sendNotification (Some m)) es (WebPushNotifier_send userIds (Some m)) = Some s"
  shows "calls_pending s \<le> maxConcurrentSends"
    and "wp_pc s = Returned \<Longrightarrow> length (wp_units s) = length userIds \<and> list_all (\<lambda>u. u = Settled) (wp_units s)"
proof -
  from wp_inv_run [OF assms] have inv: "wp_inv sendNotification m subscriptions s" .
  then have core: "wp_core sendNotification m subscriptions s"
    by (simp add: wp_inv_def)
  have "{t. t < length (wp_units s) \<and> wp_units s ! t = Running} \<subseteq> set (wp_tasks s)"
    using core unfolding wp_core_def by force
  then have "card {t. t < length (wp_units s) \<and> wp_units s ! t = Running} \<le> card (set (wp_tasks s))"
    by (intro card_mono) simp_all
  also have "\<dots> \<le> length (wp_tasks s)" by (rule card_length)
  also have "\<dots> \<le> maxConcurrentSends" using core by (simp add: wp_core_def)
  finally show "calls_pending s \<le> maxConcurrentSends"
    by (simp add: calls_pending_def length_filter_conv_card)
  show "length (wp_units s) = length userIds \<and> list_all (\<lambda>u. u = Settled) (wp_units s)"
    if "wp_pc s = Returned"
    using inv that parse_subscriptions_length [OF assms(1)]
    by (auto simp: wp_inv_def list_all_length)
qed

text \<open>
  C5. The claim: at no instant are more than \<open>maxConcurrentSends\<close> (5) delivery calls pending,
  and \<open>send\<close> does not return before every submitted send has resolved, also in the variant
  that filters its in-flight set with \<open>(task) => !task.finally\<close>. Evaluated on that variant.
  With seven recipients: the five first units are admitted, the first one settles,
  \<open>Promise.race\<close> resolves, the filter empties \<open>activeSends\<close>, the loop schedules the two
  last units, and they are admitted: six delivery calls are pending. With five recipients: after
  the first unit has settled the filter empties \<open>activeSends\<close>, the loop ends,
  \<open>Promise.all([])\<close> resolves and the call returns one result while four calls are pending.
\<close>

theorem prior_variant_exceeds_ceiling_and_returns_early:
  "maxConcurrentSends = 5
   \<and> map_option calls_pending
       (run (prior_step delivered (Some []))
          [Admit, Admit, Admit, Admit, Admit, Settle 0, Resume, Admit, Admit]
          (WebPushNotifier_prior_send (replicate 7 ''{\"endpoint\":\"https://push.example/a\"}'') (Some [])))
     = Some 6
   \<and> map_option (\<lambda>s. (wp_pc s, length (wp_results s), calls_pending s))
       (run (prior_step delivered (Some []))
          [Admit, Admit, Admit, Admit, Admit, Settle 0, Resume, Resume]
          (WebPushNotifier_prior_send (replicate 5 ''{\"endpoint\":\"https://push.example/a\"}'') (Some [])))
     = Some (Returned, 1, 4)"
  by code_simp

section \<open>The recipient field and the metadata defaults\<close>






text \<open>
  C7, as amended. \<open>FirebaseNotifier.send\<close> completes without raising for every recipient list
  and every metadata argument, absent or of any length: no state of a run is a raise, and the call
  can return. With the metadata absent every message is built from the defaults, and with a
  metadata list every recipient among the first 500 that lies beyond the end of the list is sent
  the defaults. \<open>WebPushNotifier.send\<close> completes without raising for every metadata list of
  any length, provided every recipient identifier decodes to a value other than \<open>null\<close>; a
  recipient beyond the end of the list is sent the default entry (title \<open>Notification\<close>, empty
  body, empty data, no request options). Its metadata parameter is not optional: called without
  the list and with at least one recipient it raises a \<open>TypeError\<close>.
\<close>

theorem metadata_mismatch_is_tolerated:
  "(run (fb_step messaging_send meta) es (FirebaseNotifier_send userIds) = Some s
      \<longrightarrow> (\<forall>thrown. fb_pc s \<noteq> Raised thrown))
   \<and> (\<exists>es s. run (fb_step messaging_send meta) es (FirebaseNotifier_send userIds) = Some s
        \<and> fb_pc s = Returned)
   \<and> ((meta = None \<or> (\<exists>list. meta = Some list \<and> length list \<le> g \<and> g < 500)) \<longrightarrow>
        fb_outcome_at messaging_send meta userIds g
          = messaging_send g
              \<lparr>token = userIds ! g, notification_title = ''Default Notification'',
                notification_body = [], message_data = []\<rparr>
              False)
   \<and> (parse_subscriptions ids = Inr subscriptions \<and> JNull \<notin> set subscriptions \<longrightarrow>
        (run (wp_step (sendNotification :: 'a sendNotification) (Some m)) es'
             (WebPushNotifier_send ids (Some m)) = Some s'
           \<longrightarrow> (\<forall>thrown. wp_pc s' \<noteq> Raised thrown))
        \<and> (\<exists>es s. run (wp_step sendNotification (Some m)) es (WebPushNotifier_send ids (Some m)) = Some s
             \<and> wp_pc s = Returned))
   \<and> (length m \<le> i \<longrightarrow>
        pushPayload (pushMeta_of m i)
          = \<lparr>payload_title = ''Notification'', payload_body = Some [], payload_data = []\<rparr>
        \<and> requestOptions (pushMeta_of m i)
          = \<lparr>options_TTL = None, options_vapidDetails = None, options_headers = None\<rparr>)
   \<and> (parse_subscriptions ids = Inr subscriptions \<and> ids \<noteq> [] \<longrightarrow>
        WebPushNotifier_send ids None
          = \<lparr>wp_pc = Raised TypeError, wp_subscriptions = subscriptions, wp_i = 0, wp_tasks = [],
             wp_units = [], wp_results = ([] :: (json option, 'a) DispatchResult list)\<rparr>)"
proof (intro conjI impI allI)
  assume "run (fb_step messaging_send meta) es (FirebaseNotifier_send userIds) = Some s"
  from fb_never_raises [OF this] show "fb_pc s \<noteq> Raised thrown" for thrown
    by auto
next
  show "\<exists>es s. run (fb_step messaging_send meta) es (FirebaseNotifier_send userIds) = Some s \<and> fb_pc s = Returned"
    by (rule fb_can_return)
next
  assume "meta = None \<or> (\<exists>list. meta = Some list \<and> length list \<le> g \<and> g < 500)"
  then have "userMeta_at meta (g mod 500) = None"
    by (auto simp: userMeta_at_def)
  then show "fb_outcome_at messaging_send meta userIds g
      = messaging_send g
          \<lparr>token = userIds ! g, notification_title = ''Default Notification'',
            notification_body = [], message_data = []\<rparr>
          False"
    by (simp add: fb_dispatch_reads_chunk_index fb_defaults)
next
  assume p: "parse_subscriptions ids = Inr subscriptions \<and> JNull \<notin> set subscriptions"
  show "wp_pc s' \<noteq> Raised thrown"
    if "run (wp_step sendNotification (Some m)) es' (WebPushNotifier_send ids (Some m)) = Some s'" for thrown
  proof -
    from p that have "wp_inv sendNotification m subscriptions s'"
      using wp_inv_run by blast
    from wp_never_raises [OF this] show ?thesis by auto
  qed
  from p have "wp_inv sendNotification m subscriptions (WebPushNotifier_send ids (Some m))"
    using wp_inv_start by blast
  then show "\<exists>es s. run (wp_step sendNotification (Some m)) es (WebPushNotifier_send ids (Some m)) = Some s
      \<and> wp_pc s = Returned"
    by (rule wp_can_return)
next
  assume "length m \<le> i"
  then show "pushPayload (pushMeta_of m i)
      = \<lparr>payload_title = ''Notification'', payload_body = Some [], payload_data = []\<rparr>"
    and "requestOptions (pushMeta_of m i)
      = \<lparr>options_TTL = None, options_vapidDetails = None, options_headers = None\<rparr>"
    by (simp_all add: pushMeta_of_def pushPayload_def requestOptions_def str_or_def)
next
  assume a: "parse_subscriptions ids = Inr subscriptions \<and> ids \<noteq> []"
  then have "0 < length subscriptions"
    using parse_subscriptions_length [of ids subscriptions] by simp
  then have "wp_loop None \<lparr>wp_pc = InLoop, wp_subscriptions = subscriptions, wp_i = 0, wp_tasks = [],
        wp_units = [], wp_results = ([] :: (json option, 'a) DispatchResult list)\<rparr>
      = \<lparr>wp_pc = Raised TypeError, wp_subscriptions = subscriptions, wp_i = 0, wp_tasks = [],
          wp_units = [], wp_results = []\<rparr>"
    by (subst wp_loop.simps) (simp add: pushMeta_at_def)
  with a show "WebPushNotifier_send ids None
      = \<lparr>wp_pc = Raised TypeError, wp_subscriptions = subscriptions, wp_i = 0, wp_tasks = [],
         wp_units = [], wp_results = ([] :: (json option, 'a) DispatchResult list)\<rparr>"
    by (simp add: WebPushNotifier_send_def)
qed

theorem metadata_mismatch_is_tolerated_witness:
  "(\<exists>s. run (fb_step echo_title (Some [titled ''Hello''])) [Admit, Settle 1, Settle 0, Settle 2, Resume]
           (FirebaseNotifier_send [''a'', ''b'', ''c'']) = Some s
        \<and> fb_pc s = Returned \<and> fb_pc s \<noteq> Raised TypeError
        \<and> map response (fb_results s)
            = [Some ''Default Notification'', Some ''Hello'', Some ''Default Notification''])
   \<and> length [titled ''Hello''] \<le> 1 \<and> (1::nat) < 500
   \<and> fb_outcome_at echo_title (Some [titled ''Hello'']) [''a'', ''b'', ''c''] 1
       = echo_title 1 \<lparr>token = ''b'', notification_title = ''Default Notification'',
           notification_body = [], message_data = []\<rparr> False
   \<and> parse_subscriptions [''{\"endpoint\":\"https://push.example/a\"}'', ''{\"endpoint\":\"https://push.example/b\"}'']
       = Inr [JObject [(''endpoint'', JString ''https://push.example/a'')],
              JObject [(''endpoint'', JString ''https://push.example/b'')]]
   \<and> JNull \<notin> set [JObject [(''endpoint'', JString ''https://push.example/a'')],
                    JObject [(''endpoint'', JString ''https://push.example/b'')]]
   \<and> (\<exists>s. run (wp_step delivered (Some [])) [Admit, Admit, Settle 1, Settle 0, Resume]
           (WebPushNotifier_send [''{\"endpoint\":\"https://push.example/a\"}'',
              ''{\"endpoint\":\"https://push.example/b\"}''] (Some [])) = Some s
        \<and> wp_pc s = Returned \<and> wp_pc s \<noteq> Raised TypeError)
   \<and> length ([] :: WebPush list) \<le> 1
   \<and> pushPayload (pushMeta_of [] 1)
       = \<lparr>payload_title = ''Notification'', payload_body = Some [], payload_data = []\<rparr>
   \<and> [''{\"endpoint\":\"https://push.example/a\"}'', ''{\"endpoint\":\"https://push.example/b\"}''] \<noteq> []
   \<and> wp_pc (WebPushNotifier_send [''{\"endpoint\":\"https://push.example/a\"}'',
         ''{\"endpoint\":\"https://push.example/b\"}''] None :: string wp_state) = Raised TypeError"
proof -
  let ?ids = "[''{\"endpoint\":\"https://push.example/a\"}'', ''{\"endpoint\":\"https://push.example/b\"}'']"
  let ?subs = "[JObject [(''endpoint'', JString ''https://push.example/a'')],
                JObject [(''endpoint'', JString ''https://push.example/b'')]]"
  let ?sF = "\<lparr>fb_pc = Returned, fb_rest = [], fb_chunk_no = 1, fb_tokens = [], fb_pending = [],
      fb_results = [\<lparr>status = ''success'', recipient = ''b'',
          response = Some ''Default Notification'', error = None\<rparr>,
        \<lparr>status = ''success'', recipient = ''a'', response = Some ''Hello'', error = None\<rparr>,
        \<lparr>status = ''success'', recipient = ''c'', response = Some ''Default Notification'', error = None\<rparr>]\<rparr>"
  let ?sW = "\<lparr>wp_pc = Returned, wp_subscriptions = ?subs, wp_i = 2, wp_tasks = [0, 1],
      wp_units = [Settled, Settled],
      wp_results = [\<lparr>status = ''success'', recipient = Some (JString ''https://push.example/b''),
          response = Some ''201'', error = None\<rparr>,
        \<lparr>status = ''success'', recipient = Some (JString ''https://push.example/a''),
          response = Some ''201'', error = None\<rparr>]\<rparr>"
  have f: "run (fb_step echo_title (Some [titled ''Hello''])) [Admit, Settle 1, Settle 0, Settle 2, Resume]
      (FirebaseNotifier_send [''a'', ''b'', ''c'']) = Some ?sF"
    by code_simp
  have p: "parse_subscriptions ?ids = Inr ?subs"
    by code_simp
  have w: "run (wp_step delivered (Some [])) [Admit, Admit, Settle 1, Settle 0, Resume]
      (WebPushNotifier_send ?ids (Some [])) = Some ?sW"
    by code_simp
  note T = metadata_mismatch_is_tolerated [where messaging_send = echo_title
      and meta = "Some [titled ''Hello'']" and es = "[Admit, Settle 1, Settle 0, Settle 2, Resume]"
      and userIds = "[''a'', ''b'', ''c'']" and s = ?sF and g = 1
      and ids = ?ids and subscriptions = ?subs and sendNotification = delivered
      and m = "[]" and es' = "[Admit, Admit, Settle 1, Settle 0, Resume]" and s' = ?sW and i = 1]
  from T f p w show ?thesis
    by simp
qed

text \<open>
  C7, as stated, fails for \<open>WebPushNotifier.send\<close> with the metadata absent: with one
  recipient the call raises a \<open>TypeError\<close> at \<open>meta[0]\<close>, before anything is scheduled.
\<close>

theorem wp_send_without_metadata_raises:
  "(WebPushNotifier_send [''{\"endpoint\":\"https://push.example/a\"}''] None :: string wp_state)
     = \<lparr>wp_pc = Raised TypeError,
        wp_subscriptions = [JObject [(''endpoint'', JString ''https://push.example/a'')]],
        wp_i = 0, wp_tasks = [], wp_units = [], wp_results = []\<rparr>"
  by code_simp

end
